theory Spec2Isabelle
  imports Main "HOL-Library.Sublist"
begin

section \<open>Python values and exceptions\<close>

text \<open>
  The module \<^verbatim>\<open>repo_manager/__init__.py\<close> is embedded function by function. Exceptions are
  values of the type \<open>error\<close>; a function that can raise returns \<open>error + 'a\<close>.
  Strings are Isabelle strings: the locators considered are ASCII, so \<^verbatim>\<open>str.lower\<close> and
  \<^verbatim>\<open>str.strip\<close> act on the ASCII letters and the ASCII white space only.
\<close>

datatype error =
    AttributeError
  | ValueError
  | IndexError
  | FileNotFoundError
  | NoSuchPathError
  | InvalidGitRepositoryError
  | GitCommandError
  | NoRepoError string

section \<open>String operations used by the key digest\<close>

definition is_space :: "char \<Rightarrow> bool" where
  "is_space c = (let n = (of_char c :: nat) in (9 \<le> n \<and> n \<le> 13) \<or> (28 \<le> n \<and> n \<le> 32))"

definition lower_char :: "char \<Rightarrow> char" where
  "lower_char c = (let n = (of_char c :: nat) in if 65 \<le> n \<and> n \<le> 90 then char_of (n + 32) else c)"

definition lower :: "string \<Rightarrow> string" where
  "lower s = map lower_char s"

definition lstrip :: "string \<Rightarrow> string" where
  "lstrip s = dropWhile is_space s"

definition strip :: "string \<Rightarrow> string" where
  "strip s = rev (dropWhile is_space (rev (dropWhile is_space s)))"

definition rstrip_chr :: "char \<Rightarrow> string \<Rightarrow> string" where
  "rstrip_chr c s = rev (dropWhile (\<lambda>x. x = c) (rev s))"

definition endswith :: "string \<Rightarrow> string \<Rightarrow> bool" where
  "endswith s suf = (length suf \<le> length s \<and> drop (length s - length suf) s = suf)"

definition startswith :: "string \<Rightarrow> string \<Rightarrow> bool" where
  "startswith s pre = (take (length pre) s = pre)"

text \<open>\<^verbatim>\<open>s.split(sep)\<close> for a separator of one character: never the empty list.\<close>

fun split_chr :: "char \<Rightarrow> string \<Rightarrow> string list" where
  "split_chr sep [] = [[]]"
| "split_chr sep (c # cs) =
     (if c = sep then [] # split_chr sep cs
      else (case split_chr sep cs of
              [] \<Rightarrow> [[c]]
            | s # ss \<Rightarrow> (c # s) # ss))"

text \<open>\<^verbatim>\<open>xs[-1]\<close> raises IndexError on the empty list; \<^verbatim>\<open>xs[-2:]\<close> never raises.\<close>

definition last_item :: "'a list \<Rightarrow> error + 'a" where
  "last_item xs = (if xs = [] then Inl IndexError else Inr (last xs))"

definition last_two :: "'a list \<Rightarrow> 'a list" where
  "last_two xs = drop (length xs - 2) xs"

text \<open>\<^verbatim>\<open>group, repo = xs\<close>: unpacking raises ValueError unless there are exactly two items.\<close>

definition unpack2 :: "'a list \<Rightarrow> error + ('a \<times> 'a)" where
  "unpack2 xs = (case xs of [a, b] \<Rightarrow> Inr (a, b) | _ \<Rightarrow> Inl ValueError)"

section \<open>The key digest\<close>

text \<open>Lines 172 to 175 of \<^verbatim>\<open>_digest\<close>: the locator before it is split.\<close>

definition normalise :: "string \<Rightarrow> string" where
  "normalise git_url =
     (let u1 = lower (strip git_url);
          u2 = rstrip_chr (CHR ''/'') u1
      in if endswith u2 ''.git'' then take (length u2 - 4) u2 else u2)"

definition digest :: "string \<Rightarrow> error + string" where
  "digest git_url =
     (let u = normalise git_url in
      case (if startswith u ''https://''
            then unpack2 (last_two (split_chr (CHR ''/'') u))
            else (case last_item (split_chr (CHR '':'') u) of
                    Inl e \<Rightarrow> Inl e
                  | Inr t \<Rightarrow> unpack2 (split_chr (CHR ''/'') t)))
      of Inl e \<Rightarrow> Inl e
       | Inr (grp, repo) \<Rightarrow> Inr (grp @ ''+'' @ repo))"

definition ascii :: "string \<Rightarrow> bool" where
  "ascii s = list_all (\<lambda>c. (of_char c :: nat) < 128) s"

section \<open>Paths\<close>

text \<open>\<^verbatim>\<open>os.path.join\<close> of two components and \<^verbatim>\<open>os.path.dirname\<close>, as posixpath has them.\<close>

definition join :: "string \<Rightarrow> string \<Rightarrow> string" where
  "join a b =
     (if startswith b ''/'' then b
      else if a = [] \<or> endswith a ''/'' then a @ b
      else a @ ''/'' @ b)"

definition dirname :: "string \<Rightarrow> string" where
  "dirname p =
     (let head = rev (dropWhile (\<lambda>c. c \<noteq> CHR ''/'') (rev p))
      in if head \<noteq> [] \<and> \<not> list_all (\<lambda>c. c = CHR ''/'') head
         then rstrip_chr (CHR ''/'') head else head)"

section \<open>The world outside the process\<close>

text \<open>
  The index document as \<^verbatim>\<open>json.load\<close> returns it: \<^verbatim>\<open>lrucache\<close> is a dict, kept as an
  association list in insertion order (the order \<^verbatim>\<open>min\<close> iterates in), \<^verbatim>\<open>badcache\<close>
  is written as a list and read back into a set, so it is kept as a set.
\<close>

type_synonym pydict = "(string \<times> int) list"

record doc =
  doc_lrucache :: pydict
  doc_badcache :: "string set"

datatype lock_op = LOCK_SH | LOCK_EX | LOCK_UN

text \<open>The calls that leave the process, in the order they are made.\<close>

datatype event =
    Open string string
  | Flock string lock_op
  | TempFile string
  | Dump string doc
  | Rename string string
  | Rmtree string
  | Unlink string
  | Clone string string

text \<open>
  \<open>paths\<close> holds the paths that exist (directories and files), apart from the index
  file, whose content is \<open>index_file\<close> (None while the file does not exist);
  \<open>repos\<close> holds the paths that are git repositories. Failures of the operating
  system (permissions, a full disk, a rename across devices, a directory where a file is
  expected) are outside the model.
\<close>

record world =
  paths :: "string set"
  repos :: "string set"
  index_file :: "doc option"
  log :: "event list"

text \<open>
  What the module reads from its environment: \<^verbatim>\<open>POOL_FILE\<close> (it depends on where the
  package is installed), the directory \<^verbatim>\<open>tempfile.gettempdir()\<close> and the name
  \<^verbatim>\<open>NamedTemporaryFile\<close> picks in it, and whether \<^verbatim>\<open>Repo.clone_from\<close> succeeds on a
  locator. The clone is the external fetcher: it creates the destination directory, a
  repository, when it succeeds and raises, leaving no directory, when it fails.
\<close>

record env =
  pool_file :: string
  tmpdir :: string
  tmpname :: string
  fetchable :: "string \<Rightarrow> bool"

type_synonym 'a result = "(error + 'a) \<times> world"

definition exists :: "string \<Rightarrow> world \<Rightarrow> bool" where
  "exists path w = (path \<in> paths w)"

text \<open>
  The directory a path lies in exists: the current directory (an empty
  \<^verbatim>\<open>dirname\<close>) and the root always do.
\<close>

definition parent_exists :: "string \<Rightarrow> world \<Rightarrow> bool" where
  "parent_exists path w =
     (let d = dirname path
      in d = [] \<or> list_all (\<lambda>c. c = CHR ''/'') d \<or> exists d w)"

text \<open>
  \<^verbatim>\<open>open(path, m)\<close> for the two modes the module uses: rb needs the file, wb creates
  it and needs its directory; FileNotFoundError otherwise.
\<close>

definition open_file :: "string \<Rightarrow> string \<Rightarrow> world \<Rightarrow> string result" where
  "open_file path m w =
     (if m = ''rb'' \<and> \<not> exists path w then (Inl FileNotFoundError, w)
      else if m \<noteq> ''rb'' \<and> \<not> parent_exists path w then (Inl FileNotFoundError, w)
      else (Inr path, w\<lparr>paths := insert path (paths w), log := log w @ [Open path m]\<rparr>))"

definition rmtree :: "string \<Rightarrow> world \<Rightarrow> world" where
  "rmtree path w =
     w\<lparr>paths := Set.filter (\<lambda>q. q \<noteq> path \<and> \<not> startswith q (path @ ''/'')) (paths w),
       repos := Set.filter (\<lambda>q. q \<noteq> path \<and> \<not> startswith q (path @ ''/'')) (repos w),
       log := log w @ [Rmtree path]\<rparr>"

definition unlink :: "string \<Rightarrow> world \<Rightarrow> world" where
  "unlink path w = w\<lparr>paths := paths w - {path}, log := log w @ [Unlink path]\<rparr>"

datatype Repo = Repo string

text \<open>
  \<^verbatim>\<open>Repo(path)\<close> raises NoSuchPathError when the path does not exist and
  InvalidGitRepositoryError when it exists and is not a repository.
\<close>

definition Repo_init :: "string \<Rightarrow> world \<Rightarrow> error + Repo" where
  "Repo_init path w =
     (if \<not> exists path w then Inl NoSuchPathError
      else if path \<notin> repos w then Inl InvalidGitRepositoryError
      else Inr (Repo path))"

definition clone_from :: "env \<Rightarrow> string \<Rightarrow> string \<Rightarrow> world \<Rightarrow> Repo result" where
  "clone_from ev git_url path w =
     (if fetchable ev git_url
      then (Inr (Repo path),
            w\<lparr>paths := insert path (paths w), repos := insert path (repos w),
              log := log w @ [Clone git_url path]\<rparr>)
      else (Inl GitCommandError, w\<lparr>log := log w @ [Clone git_url path]\<rparr>))"

section \<open>Dictionaries\<close>

definition dict_contains :: "string \<Rightarrow> pydict \<Rightarrow> bool" where
  "dict_contains k d = (k \<in> fst ` set d)"

definition dict_incr :: "string \<Rightarrow> pydict \<Rightarrow> pydict" where
  "dict_incr k d = map (\<lambda>(k', v). if k' = k then (k', v + 1) else (k', v)) d"

definition dict_del :: "string \<Rightarrow> pydict \<Rightarrow> pydict" where
  "dict_del k d = filter (\<lambda>(k', v). k' \<noteq> k) d"

definition dict_new :: "string \<Rightarrow> int \<Rightarrow> pydict \<Rightarrow> pydict" where
  "dict_new k v d = d @ [(k, v)]"

text \<open>
  \<^verbatim>\<open>min(d.items(), key=lambda x: x[1])\<close>: the first item, in iteration order, with the
  least value; ValueError on an empty dict.
\<close>

fun min_item :: "pydict \<Rightarrow> error + (string \<times> int)" where
  "min_item [] = Inl ValueError"
| "min_item (x # xs) = Inr (foldl (\<lambda>b a. if snd a < snd b then a else b) x xs)"

section \<open>FileLock\<close>

text \<open>
  Attribute lookup on an instance: the instance's own attributes first, then those of its
  class. \<^verbatim>\<open>__init__\<close> reads \<^verbatim>\<open>self.mode\<close> while the instance has no attribute
  yet, so only the class can supply it; the class statement of \<^verbatim>\<open>FileLock\<close> defines
  three methods and no \<^verbatim>\<open>mode\<close>. The class namespace is a parameter \<open>cls\<close> of the
  model, and \<open>FileLock_class\<close> is the one of the source.
\<close>

type_synonym attrs = "string \<rightharpoonup> string"

definition getattr :: "attrs \<Rightarrow> attrs \<Rightarrow> string \<Rightarrow> error + string" where
  "getattr inst cls name =
     (case inst name of
        Some v \<Rightarrow> Inr v
      | None \<Rightarrow> (case cls name of Some v \<Rightarrow> Inr v | None \<Rightarrow> Inl AttributeError))"

definition FileLock_class :: attrs where
  "FileLock_class = Map.empty"

record FileLock =
  fl_file :: string
  fl_mode :: string

definition FileLock_init :: "attrs \<Rightarrow> string \<Rightarrow> string \<Rightarrow> world \<Rightarrow> FileLock result" where
  "FileLock_init cls file' mode' w =
     (case getattr Map.empty cls ''mode'' of
        Inl e \<Rightarrow> (Inl e, w)
      | Inr m \<Rightarrow>
          (case open_file file' (if m = ''r'' then ''rb'' else ''wb'') w of
             (Inl e, w1) \<Rightarrow> (Inl e, w1)
           | (Inr f, w1) \<Rightarrow> (Inr \<lparr>fl_file = f, fl_mode = mode'\<rparr>, w1)))"

definition FileLock_enter :: "FileLock \<Rightarrow> world \<Rightarrow> world" where
  "FileLock_enter self w =
     w\<lparr>log := log w @ [Flock (fl_file self) (if fl_mode self = ''r'' then LOCK_SH else LOCK_EX)]\<rparr>"

definition FileLock_exit :: "FileLock \<Rightarrow> world \<Rightarrow> world" where
  "FileLock_exit self w = w\<lparr>log := log w @ [Flock (fl_file self) LOCK_UN]\<rparr>"

text \<open>
  \<^verbatim>\<open>with FileLock(file, mode): body\<close>. \<^verbatim>\<open>__exit__\<close> runs however the body ends and
  returns None, so an exception of the body propagates after it.
\<close>

definition with_FileLock ::
  "attrs \<Rightarrow> string \<Rightarrow> string \<Rightarrow> (world \<Rightarrow> 'a result) \<Rightarrow> world \<Rightarrow> 'a result" where
  "with_FileLock cls file' mode' body w =
     (case FileLock_init cls file' mode' w of
        (Inl e, w1) \<Rightarrow> (Inl e, w1)
      | (Inr lk, w1) \<Rightarrow>
          (case body (FileLock_enter lk w1) of
             (r, w2) \<Rightarrow> (r, FileLock_exit lk w2)))"

section \<open>FileDB and its transactions\<close>

record Transaction =
  t_db_file :: string
  t_lock_file :: FileLock
  lrucache :: pydict
  badcache :: "string set"

text \<open>
  \<^verbatim>\<open>__init__\<close> sets \<^verbatim>\<open>db_file\<close> and \<^verbatim>\<open>lock_file\<close>; \<^verbatim>\<open>lrucache\<close> and \<^verbatim>\<open>badcache\<close>
  come into being in \<^verbatim>\<open>_load\<close>, which \<^verbatim>\<open>__enter__\<close> calls before anything reads them.
\<close>

definition Transaction_init ::
  "attrs \<Rightarrow> string \<Rightarrow> string \<Rightarrow> string \<Rightarrow> world \<Rightarrow> Transaction result" where
  "Transaction_init cls db_file lock_file mode' w =
     (case FileLock_init cls lock_file mode' w of
        (Inl e, w1) \<Rightarrow> (Inl e, w1)
      | (Inr lk, w1) \<Rightarrow>
          (Inr \<lparr>t_db_file = db_file, t_lock_file = lk, lrucache = [], badcache = {}\<rparr>, w1))"

definition Transaction_load :: "Transaction \<Rightarrow> world \<Rightarrow> Transaction" where
  "Transaction_load self w =
     (case index_file w of
        Some obj \<Rightarrow> self\<lparr>lrucache := doc_lrucache obj, badcache := doc_badcache obj\<rparr>
      | None \<Rightarrow> self\<lparr>lrucache := [], badcache := {}\<rparr>)"

text \<open>
  \<^verbatim>\<open>_dump\<close>: \<^verbatim>\<open>NamedTemporaryFile("w", delete=False)\<close> is given no \<^verbatim>\<open>dir\<close>, so the file
  is made in the default temporary directory; the document is written to it and the file
  is renamed onto \<^verbatim>\<open>db_file\<close>.
\<close>

definition Transaction_dump :: "env \<Rightarrow> Transaction \<Rightarrow> world \<Rightarrow> world" where
  "Transaction_dump ev self w =
     (let f_name = join (tmpdir ev) (tmpname ev);
          obj = \<lparr>doc_lrucache = lrucache self, doc_badcache = badcache self\<rparr>;
          w1 = w\<lparr>paths := insert f_name (paths w), log := log w @ [TempFile f_name]\<rparr>;
          w2 = w1\<lparr>log := log w1 @ [Dump f_name obj]\<rparr>
      in w2\<lparr>paths := paths w2 - {f_name}, index_file := Some obj,
              log := log w2 @ [Rename f_name (t_db_file self)]\<rparr>)"

definition Transaction_enter :: "Transaction \<Rightarrow> world \<Rightarrow> Transaction \<times> world" where
  "Transaction_enter self w =
     (let w1 = FileLock_enter (t_lock_file self) w
      in (Transaction_load self w1, w1))"

definition Transaction_exit :: "env \<Rightarrow> Transaction \<Rightarrow> world \<Rightarrow> world" where
  "Transaction_exit ev self w =
     (let w1 = (if fl_mode (t_lock_file self) = ''w'' then Transaction_dump ev self w else w)
      in FileLock_exit (t_lock_file self) w1)"

text \<open>
  \<^verbatim>\<open>with Transaction(...) as trx: body\<close>. The body may change the transaction's caches and
  the world; \<^verbatim>\<open>__exit__\<close> runs (and, in mode w, dumps) however the body ends.
\<close>

definition with_Transaction ::
  "attrs \<Rightarrow> env \<Rightarrow> string \<Rightarrow> string \<Rightarrow> string \<Rightarrow>
   (Transaction \<Rightarrow> world \<Rightarrow> (error + 'a) \<times> Transaction \<times> world) \<Rightarrow> world \<Rightarrow> 'a result" where
  "with_Transaction cls ev db_file lock_file mode' body w =
     (case Transaction_init cls db_file lock_file mode' w of
        (Inl e, w1) \<Rightarrow> (Inl e, w1)
      | (Inr t0, w1) \<Rightarrow>
          (case Transaction_enter t0 w1 of
             (trx, w2) \<Rightarrow>
               (case body trx w2 of
                  (r, trx', w3) \<Rightarrow> (r, Transaction_exit ev trx' w3))))"

record FileDB =
  db_file :: string
  lock_file :: string

definition FileDB_init :: "string \<Rightarrow> FileDB" where
  "FileDB_init f = \<lparr>db_file = f, lock_file = f @ ''.lock''\<rparr>"

definition lock_read ::
  "attrs \<Rightarrow> env \<Rightarrow> FileDB \<Rightarrow>
   (Transaction \<Rightarrow> world \<Rightarrow> (error + 'a) \<times> Transaction \<times> world) \<Rightarrow> world \<Rightarrow> 'a result" where
  "lock_read cls ev self body w = with_Transaction cls ev (db_file self) (lock_file self) ''r'' body w"

definition lock ::
  "attrs \<Rightarrow> env \<Rightarrow> FileDB \<Rightarrow>
   (Transaction \<Rightarrow> world \<Rightarrow> (error + 'a) \<times> Transaction \<times> world) \<Rightarrow> world \<Rightarrow> 'a result" where
  "lock cls ev self body w = with_Transaction cls ev (db_file self) (lock_file self) ''w'' body w"

section \<open>LRURepoPoolSafe\<close>

record LRURepoPoolSafe =
  repo_base :: string
  max_size :: int
  file_db :: FileDB

text \<open>The loop of the constructor over \<^verbatim>\<open>list(trx.lrucache.keys())\<close>.\<close>

fun validate :: "string \<Rightarrow> world \<Rightarrow> string list \<Rightarrow> pydict \<Rightarrow> pydict" where
  "validate base w [] d = d"
| "validate base w (key # keys) d =
     validate base w keys (if \<not> exists (join base key) w then dict_del key d else d)"

definition LRURepoPoolSafe_init ::
  "attrs \<Rightarrow> env \<Rightarrow> string \<Rightarrow> int \<Rightarrow> world \<Rightarrow> LRURepoPoolSafe result" where
  "LRURepoPoolSafe_init cls ev base n w =
     (let self = \<lparr>repo_base = base, max_size = n, file_db = FileDB_init (pool_file ev)\<rparr>
      in case lock cls ev (file_db self)
                (\<lambda>trx w'. (Inr (),
                            trx\<lparr>lrucache := validate base w' (map fst (lrucache trx)) (lrucache trx)\<rparr>,
                            w')) w of
           (Inl e, w1) \<Rightarrow> (Inl e, w1)
         | (Inr u, w1) \<Rightarrow> (Inr self, w1))"

definition has :: "attrs \<Rightarrow> env \<Rightarrow> LRURepoPoolSafe \<Rightarrow> string \<Rightarrow> world \<Rightarrow> bool result" where
  "has cls ev self git_url w =
     (case digest git_url of
        Inl e \<Rightarrow> (Inl e, w)
      | Inr key \<Rightarrow>
          lock_read cls ev (file_db self)
            (\<lambda>trx w'. (Inr (dict_contains key (lrucache trx) \<or> key \<in> badcache trx), trx, w')) w)"

text \<open>The body of the transaction in \<^verbatim>\<open>evict\<close> (lines 104 to 109).\<close>

definition evict_body ::
  "string \<Rightarrow> string \<Rightarrow> string \<Rightarrow> Transaction \<Rightarrow> world \<Rightarrow> (error + unit) \<times> Transaction \<times> world" where
  "evict_body key repo_path repo_lock trx w =
     (if dict_contains key (lrucache trx) then
        (let trx' = trx\<lparr>lrucache := dict_del key (lrucache trx)\<rparr>;
             w1 = (if exists repo_path w then rmtree repo_path w else w);
             w2 = (if exists repo_lock w1 then unlink repo_lock w1 else w1)
         in (Inr (), trx', w2))
      else (Inr (), trx, w))"

definition evict :: "attrs \<Rightarrow> env \<Rightarrow> LRURepoPoolSafe \<Rightarrow> string \<Rightarrow> world \<Rightarrow> unit result" where
  "evict cls ev self git_url w =
     (case digest git_url of
        Inl e \<Rightarrow> (Inl e, w)
      | Inr key \<Rightarrow>
          (let repo_path = join (repo_base self) key;
               repo_lock = join (repo_base self) (key @ ''.lock'')
           in with_FileLock cls repo_lock ''w''
                (lock cls ev (file_db self) (evict_body key repo_path repo_lock)) w))"

text \<open>
  The body of the first transaction of \<^verbatim>\<open>get\<close> (lines 117 to 136). Its value says how
  the block is left: \<open>Some r\<close> for \<^verbatim>\<open>return r\<close>, \<open>None\<close> when control falls out of it.
\<close>

definition get_index_body ::
  "LRURepoPoolSafe \<Rightarrow> string \<Rightarrow> string \<Rightarrow> Transaction \<Rightarrow> world \<Rightarrow>
   (error + Repo option option) \<times> Transaction \<times> world" where
  "get_index_body self key repo_path trx w =
     (if dict_contains key (lrucache trx) then
        (let trx' = trx\<lparr>lrucache := dict_incr key (lrucache trx)\<rparr>
         in case Repo_init repo_path w of
              Inl e \<Rightarrow> (Inl e, trx', w)
            | Inr r \<Rightarrow> (Inr (Some (Some r)), trx', w))
      else if key \<in> badcache trx then (Inr (Some None), trx, w)
      else if int (length (lrucache trx)) \<ge> max_size self then
        (case min_item (lrucache trx) of
           Inl e \<Rightarrow> (Inl e, trx, w)
         | Inr least_used \<Rightarrow>
             (let least_key = fst least_used;
                  least_path = join (repo_base self) least_key;
                  least_lock = join (repo_base self) (least_key @ ''.lock'');
                  w1 = (if exists least_path w then rmtree least_path w else w);
                  w2 = (if exists least_lock w1 then unlink least_lock w1 else w1)
              in (Inr None, trx\<lparr>lrucache := dict_del least_key (lrucache trx)\<rparr>, w2)))
      else (Inr None, trx, w))"

text \<open>The block under the per-key lock (lines 142 to 169).\<close>

definition get_locked_body ::
  "attrs \<Rightarrow> env \<Rightarrow> LRURepoPoolSafe \<Rightarrow> string \<Rightarrow> string \<Rightarrow> string \<Rightarrow> world \<Rightarrow> Repo option result" where
  "get_locked_body cls ev self git_url key repo_path w =
     (if exists repo_path w then
        (case Repo_init repo_path w of
           Inl e \<Rightarrow> (Inl e, w)
         | Inr inst \<Rightarrow> (Inr (Some inst), w))
      else
        (case lock cls ev (file_db self) (\<lambda>trx w'. (Inr (key \<in> badcache trx), trx, w')) w of
           (Inl e, w1) \<Rightarrow> (Inl e, w1)
         | (Inr True, w1) \<Rightarrow> (Inr None, w1)
         | (Inr False, w1) \<Rightarrow>
             (case clone_from ev git_url repo_path w1 of
                (Inl e, w2) \<Rightarrow>
                  (case lock cls ev (file_db self)
                          (\<lambda>trx w'. (Inr (), trx\<lparr>badcache := insert key (badcache trx)\<rparr>, w')) w2 of
                     (Inl e', w3) \<Rightarrow> (Inl e', w3)
                   | (Inr u, w3) \<Rightarrow> (Inr None, w3))
              | (Inr inst, w2) \<Rightarrow>
                  lock cls ev (file_db self)
                    (\<lambda>trx w'.
                       (let trx' = (if \<not> dict_contains key (lrucache trx)
                                    then trx\<lparr>lrucache := dict_new key 1 (lrucache trx)\<rparr>
                                    else trx\<lparr>lrucache := dict_incr key (lrucache trx)\<rparr>)
                        in case Repo_init repo_path w' of
                             Inl e \<Rightarrow> (Inl e, trx', w')
                           | Inr r \<Rightarrow> (Inr (Some r), trx', w'))) w2)))"

definition LRURepoPoolSafe_get ::
  "attrs \<Rightarrow> env \<Rightarrow> LRURepoPoolSafe \<Rightarrow> string \<Rightarrow> world \<Rightarrow> Repo option result" where
  "LRURepoPoolSafe_get cls ev self git_url w =
     (case digest git_url of
        Inl e \<Rightarrow> (Inl e, w)
      | Inr key \<Rightarrow>
          (let repo_path = join (repo_base self) key;
               repo_lock = join (repo_base self) (key @ ''.lock'')
           in case lock cls ev (file_db self) (get_index_body self key repo_path) w of
                (Inl e, w1) \<Rightarrow> (Inl e, w1)
              | (Inr (Some r), w1) \<Rightarrow> (Inr r, w1)
              | (Inr None, w1) \<Rightarrow>
                  with_FileLock cls repo_lock ''w''
                    (get_locked_body cls ev self git_url key repo_path) w1))"

section \<open>The module\<close>

definition REPOSITORY_BASE :: string where
  "REPOSITORY_BASE = ''/data/repos''"

text \<open>\<^verbatim>\<open>pool = LRURepoPoolSafe(REPOSITORY_BASE, 5000)\<close>, run when the module is imported.\<close>

definition pool_init :: "attrs \<Rightarrow> env \<Rightarrow> world \<Rightarrow> LRURepoPoolSafe result" where
  "pool_init cls ev w = LRURepoPoolSafe_init cls ev REPOSITORY_BASE 5000 w"

definition get :: "attrs \<Rightarrow> env \<Rightarrow> LRURepoPoolSafe \<Rightarrow> string \<Rightarrow> world \<Rightarrow> Repo result" where
  "get cls ev pool git_url w =
     (case LRURepoPoolSafe_get cls ev pool git_url w of
        (Inl e, w1) \<Rightarrow> (Inl e, w1)
      | (Inr None, w1) \<Rightarrow> (Inl (NoRepoError git_url), w1)
      | (Inr (Some repo), w1) \<Rightarrow> (Inr repo, w1))"

section \<open>Observations on a world\<close>

text \<open>The usage-count map and the bad set as the index file holds them.\<close>

definition usage :: "world \<Rightarrow> pydict" where
  "usage w = (case index_file w of None \<Rightarrow> [] | Some obj \<Rightarrow> doc_lrucache obj)"

definition bad :: "world \<Rightarrow> string set" where
  "bad w = (case index_file w of None \<Rightarrow> {} | Some obj \<Rightarrow> doc_badcache obj)"

text \<open>The calls of the fetcher made so far.\<close>

definition fetches :: "world \<Rightarrow> event list" where
  "fetches w = filter (\<lambda>e. case e of Clone u p \<Rightarrow> True | _ \<Rightarrow> False) (log w)"

text \<open>
  The capacity bound on the persisted usage-count map; the keys of a dict are distinct.
\<close>

definition bounded :: "LRURepoPoolSafe \<Rightarrow> world \<Rightarrow> bool" where
  "bounded self w = (distinct (map fst (usage w)) \<and> int (length (usage w)) \<le> max_size self)"

text \<open>
  The state of the usage-count map between the first transaction of \<^verbatim>\<open>get\<close> on a
  key that is not cached and the transaction that records the key.
\<close>

definition has_room :: "LRURepoPoolSafe \<Rightarrow> string \<Rightarrow> world \<Rightarrow> bool" where
  "has_room self key w =
     (distinct (map fst (usage w)) \<and> int (length (usage w)) < max_size self \<and>
      \<not> dict_contains key (usage w))"

text \<open>
  A sequence of calls on one pool, each run to its end (it returns or raises) before the
  next starts.
\<close>

datatype call = Get string | Evict string

definition run_call :: "attrs \<Rightarrow> env \<Rightarrow> LRURepoPoolSafe \<Rightarrow> world \<Rightarrow> call \<Rightarrow> world" where
  "run_call cls ev self w c =
     (case c of
        Get git_url \<Rightarrow> snd (LRURepoPoolSafe_get cls ev self git_url w)
      | Evict git_url \<Rightarrow> snd (evict cls ev self git_url w))"

definition run_calls :: "attrs \<Rightarrow> env \<Rightarrow> LRURepoPoolSafe \<Rightarrow> call list \<Rightarrow> world \<Rightarrow> world" where
  "run_calls cls ev self cs w = foldl (run_call cls ev self) w cs"

section \<open>Test fixtures\<close>

text \<open>
  A class namespace that supplies \<^verbatim>\<open>mode\<close> (the source's class has none), an
  environment, a world that holds the repository base, the directory of the package and
  the temporary directory and nothing else, one whose index marks a key as bad, one that
  holds a cloned entry directory the index does not know, a pool of capacity two and a
  transaction in mode w.
\<close>

definition mode_w :: attrs where
  "mode_w = [''mode'' \<mapsto> ''w'']"

definition ev0 :: env where
  "ev0 = \<lparr>pool_file = ''/srv/app/repo_manager/repo_pool.json'', tmpdir = ''/tmp'',
          tmpname = ''tmpk3q9x'', fetchable = (\<lambda>u. u \<noteq> ''host:bad/repo'')\<rparr>"

definition w0 :: world where
  "w0 = \<lparr>paths = {''/data/repos'', ''/srv/app/repo_manager'', ''/tmp''}, repos = {},
         index_file = None, log = []\<rparr>"

definition w_bad :: world where
  "w_bad = \<lparr>paths = {''/data/repos'', ''/srv/app/repo_manager'', ''/tmp''}, repos = {},
            index_file = Some \<lparr>doc_lrucache = [], doc_badcache = {''bad+repo''}\<rparr>,
            log = []\<rparr>"

definition w_orphan :: world where
  "w_orphan = \<lparr>paths = {''/data/repos'', ''/srv/app/repo_manager'', ''/tmp'', ''/data/repos/g+a''},
               repos = {''/data/repos/g+a''}, index_file = None, log = []\<rparr>"

definition pool2 :: LRURepoPoolSafe where
  "pool2 = \<lparr>repo_base = ''/data/repos'', max_size = 2, file_db = FileDB_init (pool_file ev0)\<rparr>"

definition trx0 :: Transaction where
  "trx0 = \<lparr>t_db_file = pool_file ev0,
           t_lock_file = \<lparr>fl_file = pool_file ev0 @ ''.lock'', fl_mode = ''w''\<rparr>,
           lrucache = [(''g+a'', 1)], badcache = {}\<rparr>"

section \<open>Lemmas on the string operations\<close>

lemma split_chr_nonempty: "split_chr c s \<noteq> []"
  by (induction s) (auto split: list.splits)

lemma split_chr_append: "split_chr c (a @ c # b) = split_chr c a @ split_chr c b"
  by (induction a) (auto split: list.splits simp: split_chr_nonempty)

lemma split_chr_notin: "c \<notin> set s \<Longrightarrow> split_chr c s = [s]"
  by (induction s) auto

lemma unpack2_Inr_iff: "(\<exists>p. unpack2 xs = Inr p) \<longleftrightarrow> length xs = 2"
  by (cases xs rule: list.exhaust; simp add: unpack2_def split: list.splits) 

lemma unpack2_error: "unpack2 xs = Inl e \<Longrightarrow> e = ValueError"
  by (auto simp: unpack2_def split: list.splits)

lemma unpack2_Inl_iff: "unpack2 xs = Inl ValueError \<longleftrightarrow> length xs \<noteq> 2"
  by (auto simp: unpack2_def split: list.splits)

lemma length_last_two: "2 \<le> length xs \<Longrightarrow> length (last_two xs) = 2"
  by (simp add: last_two_def)

lemma startswith_prefix: "startswith u p \<Longrightarrow> u = p @ drop (length p) u"
  unfolding startswith_def by (metis append_take_drop_id)

lemma startswith_https_split:
  assumes "startswith u ''https://''"
  shows "3 \<le> length (split_chr (CHR ''/'') u)"
proof -
  define r where "r = drop (length ''https://'') u"
  have "u = ''https://'' @ r"
    unfolding r_def using assms by (rule startswith_prefix)
  then have u: "u = ''https:'' @ CHR ''/'' # ([] @ CHR ''/'' # r)"
    by simp
  have "split_chr (CHR ''/'') u =
          split_chr (CHR ''/'') ''https:'' @ split_chr (CHR ''/'') [] @ split_chr (CHR ''/'') r"
    by (subst u) (simp only: split_chr_append)
  moreover have "1 \<le> length (split_chr (CHR ''/'') r)"
    using split_chr_nonempty[of "CHR ''/''" r] by (cases "split_chr (CHR ''/'') r") simp_all
  moreover have "1 \<le> length (split_chr (CHR ''/'') ''https:'')"
    using split_chr_nonempty[of "CHR ''/''" "''https:''"] by (cases "split_chr (CHR ''/'') ''https:''") simp_all
  moreover have "length (split_chr (CHR ''/'') []) = 1" by simp
  ultimately show ?thesis by (simp del: split_chr.simps)
qed

lemma digest_error: "digest u = Inl e \<Longrightarrow> e = ValueError"
  by (auto simp: digest_def Let_def last_item_def split_chr_nonempty split: sum.splits if_splits dest: unpack2_error)

lemma digest_fails_iff:
  "digest url = Inl ValueError \<longleftrightarrow>
     (\<not> startswith (normalise url) ''https://'' \<and>
      length (split_chr (CHR ''/'') (last (split_chr (CHR '':'') (normalise url)))) \<noteq> 2)"
proof (cases "startswith (normalise url) ''https://''")
  case True
  then have "length (last_two (split_chr (CHR ''/'') (normalise url))) = 2"
    using startswith_https_split[OF True] by (simp add: length_last_two)
  then obtain p where "unpack2 (last_two (split_chr (CHR ''/'') (normalise url))) = Inr p"
    using unpack2_Inr_iff by blast
  with True show ?thesis by (simp add: digest_def Let_def split: prod.splits)
next
  case False
  let ?xs = "split_chr (CHR ''/'') (last (split_chr (CHR '':'') (normalise url)))"
  show ?thesis
  proof (cases "unpack2 ?xs")
    case (Inl e)
    then have "e = ValueError" by (rule unpack2_error)
    with Inl False show ?thesis
      using unpack2_Inl_iff[of ?xs]
      by (simp add: digest_def Let_def last_item_def split_chr_nonempty)
  next
    case (Inr p)
    then have "length ?xs = 2" using unpack2_Inr_iff[of ?xs] by blast
    with Inr False show ?thesis
      by (simp add: digest_def Let_def last_item_def split_chr_nonempty split: prod.splits)
  qed
qed

lemma of_char_lower_char:
  "of_char (lower_char c) = (if 65 \<le> (of_char c :: nat) \<and> (of_char c :: nat) \<le> 90 then of_char c + 32 else (of_char c :: nat))"
proof (cases "65 \<le> (of_char c :: nat) \<and> (of_char c :: nat) \<le> 90")
  case True
  then have "(of_char c + 32 :: nat) < 256" by simp
  then have "of_char (char_of (of_char c + 32 :: nat)) = (of_char c + 32 :: nat)"
    by (simp only: of_char_of mod_less)
  with True show ?thesis by (simp only: lower_char_def Let_def simp_thms if_True)
next
  case False
  then show ?thesis by (simp only: lower_char_def Let_def simp_thms if_False)
qed


lemma lower_char_slash: "lower_char c = CHR ''/'' \<longleftrightarrow> c = CHR ''/''"
proof -
  have "lower_char c = CHR ''/'' \<longleftrightarrow> (of_char (lower_char c) :: nat) = of_char (CHR ''/'')"
    by (simp only: of_char_eq_iff)
  also have "\<dots> \<longleftrightarrow> (of_char c :: nat) = of_char (CHR ''/'')"
    unfolding of_char_lower_char by (cases "65 \<le> (of_char c :: nat) \<and> (of_char c :: nat) \<le> 90") auto
  also have "\<dots> \<longleftrightarrow> c = CHR ''/''"
    by (simp only: of_char_eq_iff)
  finally show ?thesis .
qed

lemma endswith_suffix: "endswith s suf \<longleftrightarrow> suffix suf s"
proof
  assume "endswith s suf"
  then have "s = take (length s - length suf) s @ suf"
    by (metis append_take_drop_id endswith_def)
  then show "suffix suf s" by (metis suffixI)
next
  assume "suffix suf s"
  then show "endswith s suf" by (auto simp: suffix_def endswith_def)
qed

lemma endswith_sep: "c \<notin> set suf \<Longrightarrow> endswith (a @ c # b) suf \<longleftrightarrow> endswith b suf"
  by (auto simp: endswith_suffix suffix_append suffix_Cons)

lemma lower_char_colon: "lower_char c = CHR '':'' \<longleftrightarrow> c = CHR '':''"
proof -
  have "lower_char c = CHR '':'' \<longleftrightarrow> (of_char (lower_char c) :: nat) = of_char (CHR '':'')"
    by (simp only: of_char_eq_iff)
  also have "\<dots> \<longleftrightarrow> (of_char c :: nat) = of_char (CHR '':'')"
    unfolding of_char_lower_char by (cases "65 \<le> (of_char c :: nat) \<and> (of_char c :: nat) \<le> 90") auto
  also have "\<dots> \<longleftrightarrow> c = CHR '':''"
    by (simp only: of_char_eq_iff)
  finally show ?thesis .
qed

lemma lower_char_idem: "lower_char (lower_char c) = lower_char c"
proof -
  have "(of_char (lower_char (lower_char c)) :: nat) = of_char (lower_char c)"
    unfolding of_char_lower_char[of "lower_char c"] unfolding of_char_lower_char
    by (cases "65 \<le> (of_char c :: nat) \<and> (of_char c :: nat) \<le> 90") auto
  then show ?thesis by (simp only: of_char_eq_iff)
qed

lemma lower_idem: "lower (lower s) = lower s"
  by (simp add: lower_def lower_char_idem)

lemma lower_append: "lower (a @ b) = lower a @ lower b"
  by (simp add: lower_def)

lemma slash_in_lower: "CHR ''/'' \<in> set (lower s) \<longleftrightarrow> CHR ''/'' \<in> set s"
  by (induction s) (simp_all add: lower_def lower_char_slash eq_commute[of "CHR ''/''"])

lemma colon_in_lower: "CHR '':'' \<in> set (lower s) \<longleftrightarrow> CHR '':'' \<in> set s"
  by (induction s) (simp_all add: lower_def lower_char_colon eq_commute[of "CHR '':''"])

lemma dropWhile_rev_last: "s \<noteq> [] \<Longrightarrow> \<not> P (last s) \<Longrightarrow> dropWhile P (rev s) = rev s"
  by (cases s rule: rev_cases) simp_all

lemma rstrip_chr_id: "s \<noteq> [] \<Longrightarrow> last s \<noteq> c \<Longrightarrow> rstrip_chr c s = s"
  unfolding rstrip_chr_def by (simp add: dropWhile_rev_last)

lemma not_space_h: "\<not> is_space (CHR ''h'')" "\<not> is_space (CHR ''t'')" "\<not> is_space (CHR '':'')"
  by code_simp+

lemma endswith_append_same: "endswith (x @ s) s"
  by (simp add: endswith_def)

lemma split_chr_two:
  "c \<notin> set g \<Longrightarrow> c \<notin> set r \<Longrightarrow> split_chr c (g @ c # r) = [g, r]"
  by (simp add: split_chr_append split_chr_notin del: split_chr.simps)

lemma last_two_append2: "last_two (xs @ [a, b]) = [a, b]"
  by (simp add: last_two_def)

lemma startswith_append_same: "startswith (p @ x) p"
  by (simp add: startswith_def)

lemma digest_https_normal:
  assumes n: "normalise u = ''https://'' @ h @ ''/'' @ g @ ''/'' @ r"
    and g: "CHR ''/'' \<notin> set g" and r: "CHR ''/'' \<notin> set r"
  shows "digest u = Inr (g @ ''+'' @ r)"
proof -
  have s: "startswith (normalise u) ''https://''"
    unfolding n by (rule startswith_append_same)
  have "normalise u = (''https://'' @ h) @ CHR ''/'' # (g @ CHR ''/'' # r)"
    unfolding n by simp
  then have "split_chr (CHR ''/'') (normalise u) =
      split_chr (CHR ''/'') (''https://'' @ h) @ [g, r]"
    by (simp only: split_chr_append[of _ "''https://'' @ h"] split_chr_two[OF g r])
  then have "last_two (split_chr (CHR ''/'') (normalise u)) = [g, r]"
    by (simp only: last_two_append2)
  with s show ?thesis
    by (simp add: digest_def Let_def unpack2_def)
qed

lemma lower_char_lits: "lower_char (CHR '':'') = CHR '':''" "lower_char (CHR ''/'') = CHR ''/''"
  by (simp_all only: lower_char_colon lower_char_slash)

lemma is_space_lower_char: "is_space (lower_char c) = is_space c"
  unfolding is_space_def Let_def of_char_lower_char
  by (cases "65 \<le> (of_char c :: nat) \<and> (of_char c :: nat) \<le> 90") auto

lemma lower_char_space: "is_space c \<Longrightarrow> lower_char c = c"
proof -
  assume "is_space c"
  then have "\<not> (65 \<le> (of_char c :: nat) \<and> (of_char c :: nat) \<le> 90)"
    unfolding is_space_def Let_def by auto
  then show ?thesis by (simp only: lower_char_def Let_def if_False)
qed

lemma not_space_slash: "\<not> is_space (CHR ''/'')"
  by code_simp

lemma last_lower: "s \<noteq> [] \<Longrightarrow> last (lower s) = lower_char (last s)"
  by (simp add: lower_def last_map)

lemma hd_lower: "s \<noteq> [] \<Longrightarrow> hd (lower s) = lower_char (hd s)"
  by (simp add: lower_def hd_map)

lemma lower_Nil_iff: "lower s = [] \<longleftrightarrow> s = []"
  by (simp add: lower_def)

lemma strip_ws:
  assumes "list_all is_space ws" "list_all is_space ws'"
    and "core \<noteq> []" "\<not> is_space (hd core)" "\<not> is_space (last core)"
  shows "strip (ws @ core @ ws') = core"
proof -
  have c: "dropWhile is_space core = core" using assms(3,4) by (cases core) simp_all
  have 1: "dropWhile is_space (ws @ core @ ws') = core @ ws'"
    using assms(1,3,4) by (cases core) (simp_all add: dropWhile_append list_all_iff)
  have r: "dropWhile is_space (rev core) = rev core"
    using assms(3,5) by (rule dropWhile_rev_last)
  have 2: "dropWhile is_space (rev (core @ ws')) = rev core"
    using assms(2) r by (simp add: dropWhile_append list_all_iff)
  show ?thesis by (simp only: strip_def 1 2 rev_rev_ident)
qed

lemma rstrip_chr_replicate: "rstrip_chr c (x @ replicate n c) = rstrip_chr c x"
  by (simp add: rstrip_chr_def dropWhile_append)

lemma lower_replicate_slash: "lower (replicate n (CHR ''/'')) = replicate n (CHR ''/'')"
  by (simp add: lower_def lower_char_lits)

lemma normalise_shape:
  assumes ws: "list_all is_space ws" "list_all is_space ws'"
    and a: "a \<noteq> []" "\<not> is_space (hd a)"
    and repo: "repo \<noteq> []" "CHR ''/'' \<notin> set repo" "\<not> is_space (last repo)"
              "\<not> endswith (lower repo) ''.git''"
    and suf: "lower suf = [] \<or> lower suf = ''.git''"
  shows "normalise (ws @ (a @ CHR ''/'' # repo @ suf @ replicate n (CHR ''/'')) @ ws')
           = lower a @ CHR ''/'' # lower repo"
proof -
  let ?core = "a @ CHR ''/'' # repo @ suf @ replicate n (CHR ''/'')"
  let ?y = "lower a @ CHR ''/'' # lower repo"
  let ?x = "?y @ lower suf"
  have lr: "lower repo \<noteq> []" using repo(1) by (simp add: lower_Nil_iff)
  have ls: "suf \<noteq> [] \<Longrightarrow> \<not> is_space (last suf) \<and> last (lower suf) = CHR ''t''"
  proof -
    assume n: "suf \<noteq> []"
    then have "lower suf = ''.git''" using suf by (simp add: lower_Nil_iff)
    then have "last (lower suf) = CHR ''t''" by simp
    moreover have "last (lower suf) = lower_char (last suf)" using n by (rule last_lower)
    ultimately have "lower_char (last suf) = CHR ''t''" by simp
    then have "is_space (last suf) = is_space (CHR ''t'')"
      using is_space_lower_char[of "last suf"] by simp
    then show ?thesis using not_space_h(2) \<open>last (lower suf) = CHR ''t''\<close> by simp
  qed
  have c1: "?core \<noteq> []" using a(1) by simp
  have c2: "\<not> is_space (hd ?core)" using a by simp
  have c3: "\<not> is_space (last ?core)"
  proof (cases "n = 0")
    case False
    then have "last ?core = CHR ''/''" by simp
    then show ?thesis using not_space_slash by simp
  next
    case True
    show ?thesis
    proof (cases "suf = []")
      case True
      with \<open>n = 0\<close> repo(1,3) show ?thesis by simp
    next
      case False
      with \<open>n = 0\<close> ls show ?thesis by simp
    qed
  qed
  have s: "strip (ws @ ?core @ ws') = ?core"
    using ws c1 c2 c3 by (rule strip_ws)
  have l: "lower ?core = ?x @ replicate n (CHR ''/'')"
    by (simp add: lower_append lower_replicate_slash) (simp add: lower_def lower_char_lits)
  have xl: "last ?x \<noteq> CHR ''/''"
  proof (cases "suf = []")
    case True
    have "last (lower repo) \<in> set (lower repo)" using lr by (rule last_in_set)
    then have "last (lower repo) \<noteq> CHR ''/''"
      using repo(2) slash_in_lower[of repo] by metis
    with True lr show ?thesis by (simp add: lower_def)
  next
    case False
    then have "lower suf \<noteq> []" by (simp add: lower_Nil_iff)
    moreover have "last (lower suf) = CHR ''t''" using ls[OF False] by simp
    ultimately show ?thesis by simp
  qed
  have r: "rstrip_chr (CHR ''/'') (?x @ replicate n (CHR ''/'')) = ?x"
    unfolding rstrip_chr_replicate using xl by (intro rstrip_chr_id) simp_all
  have n1: "normalise (ws @ ?core @ ws') =
      (if endswith ?x ''.git'' then take (length ?x - 4) ?x else ?x)"
    by (simp only: normalise_def Let_def s l r)
  show ?thesis
  proof (cases "suf = []")
    case True
    have "CHR ''/'' \<notin> set ''.git''" by simp
    then have "endswith (lower a @ CHR ''/'' # lower repo) ''.git'' \<longleftrightarrow> endswith (lower repo) ''.git''"
      by (rule endswith_sep)
    with repo(4) have "\<not> endswith ?y ''.git''" by blast
    with True show ?thesis unfolding n1 by (simp add: lower_def)
  next
    case False
    then have g: "lower suf = ''.git''" using suf by (simp add: lower_Nil_iff)
    have "endswith (?y @ ''.git'') ''.git''" by (rule endswith_append_same)
    moreover have "take (length (?y @ ''.git'') - 4) (?y @ ''.git'') = ?y" by simp
    ultimately show ?thesis unfolding n1 g by (simp only: if_True)
  qed
qed

lemma https_colon_split:
  "h @ CHR '':'' # us = ''https://'' \<Longrightarrow> h = ''https'' \<and> us = ''//''"
  by (auto simp: append_eq_Cons_conv)

lemma not_https_scp_gen:
  assumes h: "\<not> startswith h ''https://''" and g: "CHR ''/'' \<notin> set g"
    and r: "CHR ''/'' \<notin> set r"
  shows "\<not> startswith (h @ '':'' @ g @ ''/'' @ r) ''https://''"
proof
  assume "startswith (h @ '':'' @ g @ ''/'' @ r) ''https://''"
  then obtain q where q: "h @ (CHR '':'' # g @ CHR ''/'' # r) = ''https://'' @ q"
    using startswith_prefix[of "h @ '':'' @ g @ ''/'' @ r" "''https://''"] by auto
  then obtain us where
    "(h = ''https://'' @ us \<and> us @ (CHR '':'' # g @ CHR ''/'' # r) = q) \<or>
     (h @ us = ''https://'' \<and> CHR '':'' # g @ CHR ''/'' # r = us @ q)"
    unfolding append_eq_append_conv2 by blast
  then show False
  proof
    assume "h = ''https://'' @ us \<and> us @ (CHR '':'' # g @ CHR ''/'' # r) = q"
    then have "startswith h ''https://''" by (simp add: startswith_def)
    with h show False by simp
  next
    assume a: "h @ us = ''https://'' \<and> CHR '':'' # g @ CHR ''/'' # r = us @ q"
    show False
    proof (cases us)
      case Nil
      with a have "startswith h ''https://''" by (simp add: startswith_def)
      with h show False by simp
    next
      case (Cons c us')
      with a have c: "c = CHR '':''" and gq: "g @ CHR ''/'' # r = us' @ q" by simp_all
      from a Cons c have "h @ CHR '':'' # us' = ''https://''" by simp
      then have "us' = ''//''" using https_colon_split by blast
      with gq have "g @ CHR ''/'' # r = CHR ''/'' # CHR ''/'' # q" by simp
      then have "split_chr (CHR ''/'') (g @ CHR ''/'' # r) =
                 split_chr (CHR ''/'') (CHR ''/'' # CHR ''/'' # q)"
        by (simp only:)
      then have "[g, r] = [] # [] # split_chr (CHR ''/'') q"
        unfolding split_chr_two[OF g r] by simp
      then show False using split_chr_nonempty[of "CHR ''/''" q] by simp
    qed
  qed
qed

lemma digest_scp_normal_gen:
  assumes n: "normalise u = h @ '':'' @ g @ ''/'' @ r"
    and h: "\<not> startswith h ''https://''"
    and g: "CHR ''/'' \<notin> set g" "CHR '':'' \<notin> set g"
    and r: "CHR ''/'' \<notin> set r" "CHR '':'' \<notin> set r"
  shows "digest u = Inr (g @ ''+'' @ r)"
proof -
  have s: "\<not> startswith (normalise u) ''https://''"
    unfolding n by (rule not_https_scp_gen[OF h g(1) r(1)])
  have c: "CHR '':'' \<notin> set (g @ CHR ''/'' # r)" using g r by simp
  have "normalise u = h @ CHR '':'' # (g @ CHR ''/'' # r)"
    unfolding n by simp
  then have "split_chr (CHR '':'') (normalise u) = split_chr (CHR '':'') h @ [g @ CHR ''/'' # r]"
    by (simp only: split_chr_append split_chr_notin[OF c])
  then have "last_item (split_chr (CHR '':'') (normalise u)) = Inr (g @ CHR ''/'' # r)"
    by (simp add: last_item_def)
  with s show ?thesis
    by (simp add: digest_def Let_def unpack2_def split_chr_two[OF g(1) r(1)] del: split_chr.simps)
qed

lemma endswith_plus:
  "endswith (g @ ''+'' @ r) ''.git'' \<longleftrightarrow> endswith r ''.git''"
proof -
  have "CHR ''+'' \<notin> set ''.git''" by simp
  then have "endswith (g @ CHR ''+'' # r) ''.git'' \<longleftrightarrow> endswith r ''.git''"
    by (rule endswith_sep)
  then show ?thesis by simp
qed

lemma FileLock_init_source: "FileLock_init FileLock_class f m w = (Inl AttributeError, w)"
  by (simp add: FileLock_init_def FileLock_class_def getattr_def)

lemma with_FileLock_source: "with_FileLock FileLock_class f m body w = (Inl AttributeError, w)"
  by (simp add: with_FileLock_def FileLock_init_source)

lemma with_Transaction_source:
  "with_Transaction FileLock_class ev d l m body w = (Inl AttributeError, w)"
  by (simp add: with_Transaction_def Transaction_init_def FileLock_init_source)

lemma join_plain:
  "a \<noteq> [] \<Longrightarrow> last a \<noteq> CHR ''/'' \<Longrightarrow> CHR ''/'' \<notin> set b \<Longrightarrow> join a b = a @ ''/'' @ b"
  by (cases b; cases a rule: rev_cases) (auto simp: join_def startswith_def endswith_def)

lemma rstrip_chr_snoc: "s \<noteq> [] \<Longrightarrow> last s \<noteq> c \<Longrightarrow> rstrip_chr c (s @ [c]) = s"
  unfolding rstrip_chr_def by (simp add: dropWhile_rev_last)

lemma dirname_join:
  assumes "a \<noteq> []" "last a \<noteq> CHR ''/''" "CHR ''/'' \<notin> set b"
  shows "dirname (join a b) = a"
proof -
  have j: "join a b = a @ ''/'' @ b" using assms by (rule join_plain)
  have "dropWhile (\<lambda>c. c \<noteq> CHR ''/'') (rev b @ CHR ''/'' # rev a) = CHR ''/'' # rev a"
    using assms(3) by (simp add: dropWhile_append)
  then have h: "rev (dropWhile (\<lambda>c. c \<noteq> CHR ''/'') (rev (a @ ''/'' @ b))) = a @ ''/''"
    by simp
  have n: "\<not> list_all (\<lambda>c. c = CHR ''/'') (a @ ''/'')"
    using assms(1,2) by (cases a rule: rev_cases) simp_all
  show ?thesis
    unfolding j dirname_def h Let_def using n rstrip_chr_snoc[OF assms(1,2)] by simp
qed

section \<open>The lock constructor (claim C1)\<close>

text \<open>
  Claim C1. On the class as the source defines it, constructing a \<^verbatim>\<open>FileLock\<close> raises
  AttributeError and changes nothing: no file is opened and no lock is taken. So do the
  constructor of the pool and, for every locator that has a key, \<^verbatim>\<open>has\<close>,
  \<^verbatim>\<open>evict\<close>, \<^verbatim>\<open>get\<close> of the pool and \<^verbatim>\<open>get\<close> of the module; a locator
  without a key stops these four in the digest, before any lock object is built.
\<close>

theorem FileLock_always_raises:
  "FileLock_init FileLock_class f m w = (Inl AttributeError, w)
   \<and> LRURepoPoolSafe_init FileLock_class ev base n w = (Inl AttributeError, w)
   \<and> pool_init FileLock_class ev w = (Inl AttributeError, w)
   \<and> has FileLock_class ev self git_url w =
        (case digest git_url of Inl e \<Rightarrow> (Inl e, w) | Inr key \<Rightarrow> (Inl AttributeError, w))
   \<and> evict FileLock_class ev self git_url w =
        (case digest git_url of Inl e \<Rightarrow> (Inl e, w) | Inr key \<Rightarrow> (Inl AttributeError, w))
   \<and> LRURepoPoolSafe_get FileLock_class ev self git_url w =
        (case digest git_url of Inl e \<Rightarrow> (Inl e, w) | Inr key \<Rightarrow> (Inl AttributeError, w))
   \<and> get FileLock_class ev self git_url w =
        (case digest git_url of Inl e \<Rightarrow> (Inl e, w) | Inr key \<Rightarrow> (Inl AttributeError, w))"
  by (simp add: FileLock_init_source LRURepoPoolSafe_init_def pool_init_def has_def evict_def
      LRURepoPoolSafe_get_def get_def lock_def lock_read_def with_Transaction_source
      with_FileLock_source Let_def split: sum.splits)

section \<open>Failure of the key digest (claim C3)\<close>

text \<open>
  Claim C3, as stated, fails: a locator with a host and no path segment at all has a
  key.
\<close>

theorem digest_host_only_counterexample:
  "digest ''https://host'' = Inr ''+host''"
  by code_simp

text \<open>
  Claim C3, amended. The only error of the digest is ValueError (the module defines no
  error of its own for a malformed locator). Let the normalised locator be the locator
  stripped of white space, in lower case, without its trailing slashes and without one
  trailing \<^verbatim>\<open>.git\<close>. The digest fails exactly when the normalised locator does not
  start with \<^verbatim>\<open>https://\<close> and what follows its last colon is not made of exactly two
  segments separated by a slash: fewer than two, or more. When the normalised locator
  starts with \<^verbatim>\<open>https://\<close> the digest has a key, whatever the number of segments.
\<close>

theorem digest_fails_exactly:
  assumes "ascii git_url"
  shows "(\<forall>e. digest git_url = Inl e \<longrightarrow> e = ValueError)
       \<and> ((\<exists>e. digest git_url = Inl e) \<longleftrightarrow>
            (\<not> startswith (normalise git_url) ''https://'' \<and>
             length (split_chr (CHR ''/'')
                       (last (split_chr (CHR '':'') (normalise git_url)))) \<noteq> 2))
       \<and> (startswith (normalise git_url) ''https://'' \<longrightarrow>
            (\<exists>key. digest git_url = Inr key))"
proof -
  have 1: "\<forall>e. digest git_url = Inl e \<longrightarrow> e = ValueError"
    using digest_error[of git_url] by blast
  have 2: "(\<exists>e. digest git_url = Inl e) \<longleftrightarrow>
            (\<not> startswith (normalise git_url) ''https://'' \<and>
             length (split_chr (CHR ''/'')
                       (last (split_chr (CHR '':'') (normalise git_url)))) \<noteq> 2)"
    using digest_error[of git_url] digest_fails_iff[of git_url] by blast
  have 3: "startswith (normalise git_url) ''https://'' \<longrightarrow>
            (\<exists>key. digest git_url = Inr key)"
    using 2 by (cases "digest git_url") auto
  from 1 2 3 show ?thesis by blast
qed

theorem digest_fails_exactly_witness:
  "ascii ''host:repo'' \<and> digest ''host:repo'' = Inl ValueError
   \<and> ascii ''https://host/'' \<and> normalise ''https://host/'' = ''https://host''
   \<and> (\<exists>key. digest ''https://host/'' = Inr key)
   \<and> ascii ''https://'' \<and> normalise ''https://'' = ''https:''
   \<and> digest ''https://'' = Inl ValueError"
proof -
  have a: "ascii ''host:repo''" "ascii ''https://host/''" "ascii ''https://''" by code_simp+
  have b: "\<not> startswith (normalise ''host:repo'') ''https://'' \<and>
           length (split_chr (CHR ''/'')
                     (last (split_chr (CHR '':'') (normalise ''host:repo'')))) \<noteq> 2"
    by code_simp
  have n: "normalise ''https://host/'' = ''https://host''" "normalise ''https://'' = ''https:''"
    by code_simp+
  have c: "startswith (normalise ''https://host/'') ''https://''" by code_simp
  have d: "\<not> startswith (normalise ''https://'') ''https://'' \<and>
           length (split_chr (CHR ''/'')
                     (last (split_chr (CHR '':'') (normalise ''https://'')))) \<noteq> 2"
    by code_simp
  from digest_fails_exactly[OF a(1)] b have 1: "digest ''host:repo'' = Inl ValueError" by blast
  from digest_fails_exactly[OF a(2)] c have 2: "\<exists>key. digest ''https://host/'' = Inr key"
    by blast
  from digest_fails_exactly[OF a(3)] d have 3: "digest ''https://'' = Inl ValueError" by blast
  from 1 2 3 a n show ?thesis by blast
qed

section \<open>Locators of one resource (claim C9)\<close>

text \<open>
  Claim C9, as stated, fails: the digest knows the scheme \<^verbatim>\<open>https://\<close> and the form
  \<^verbatim>\<open>host:group/repo\<close> only, and the same resource named through \<^verbatim>\<open>http://\<close> has no
  key at all.
\<close>

theorem digest_other_scheme_counterexample:
  "digest ''http://host/group/repo'' = Inl ValueError
   \<and> digest ''https://host/group/repo'' = Inr ''group+repo''"
  by code_simp

text \<open>
  Claim C9, amended. The digest is a function of the locator alone, and it gives one key
  to every locator of the two forms it knows that names the same group and repository:
  a URL of scheme \<^verbatim>\<open>https://\<close> (in any letter case, after any host or path prefix),
  and the form \<^verbatim>\<open>host:group/repo\<close> (with any host part, such as
  \<^verbatim>\<open>git@host\<close>, that does not itself begin with \<^verbatim>\<open>https://\<close>); in both, white
  space around the locator, a suffix \<^verbatim>\<open>.git\<close> and trailing slashes may be present
  or not, and the letter case of group and name is free. The group and the name hold no
  slash and no colon, the name is not empty and ends neither in white space nor, in
  lower case, in \<^verbatim>\<open>.git\<close>. The key is the group and the name in lower case joined
  by a plus sign; it holds no slash and no colon and does not end in \<^verbatim>\<open>.git\<close>.
\<close>

theorem digest_https_scp_same_key:
  assumes "ascii (ws1 @ scheme @ host1 @ grp @ repo @ suf1 @ ws2)"
    and "ascii (host2 @ grp' @ repo' @ suf2 @ ws3)"
    and ws: "list_all is_space ws1" "list_all is_space ws2" "list_all is_space ws3"
    and sch: "lower scheme = ''https://''"
    and suf: "lower suf1 = [] \<or> lower suf1 = ''.git''" "lower suf2 = [] \<or> lower suf2 = ''.git''"
    and ne: "repo \<noteq> []" and sp: "\<not> is_space (last repo)"
    and git: "\<not> endswith (lower repo) ''.git''"
    and g: "CHR ''/'' \<notin> set grp" "CHR '':'' \<notin> set grp"
    and r: "CHR ''/'' \<notin> set repo" "CHR '':'' \<notin> set repo"
    and same: "lower grp' = lower grp" "lower repo' = lower repo"
    and h: "\<not> startswith (lower (lstrip host2)) ''https://''"
  shows "digest (ws1 @ scheme @ host1 @ ''/'' @ grp @ ''/'' @ repo @ suf1
                   @ replicate n1 (CHR ''/'') @ ws2)
           = Inr (lower grp @ ''+'' @ lower repo)
       \<and> digest (host2 @ '':'' @ grp' @ ''/'' @ repo' @ suf2 @ replicate n2 (CHR ''/'') @ ws3)
           = Inr (lower grp @ ''+'' @ lower repo)
       \<and> lower (lower grp @ ''+'' @ lower repo) = lower grp @ ''+'' @ lower repo
       \<and> CHR ''/'' \<notin> set (lower grp @ ''+'' @ lower repo)
       \<and> CHR '':'' \<notin> set (lower grp @ ''+'' @ lower repo)
       \<and> \<not> endswith (lower grp @ ''+'' @ lower repo) ''.git''"
proof -
  have lg: "CHR ''/'' \<notin> set (lower grp)" "CHR '':'' \<notin> set (lower grp)"
    using g by (simp_all only: slash_in_lower colon_in_lower not_False_eq_True)
  have lr: "CHR ''/'' \<notin> set (lower repo)" "CHR '':'' \<notin> set (lower repo)"
    using r by (simp_all only: slash_in_lower colon_in_lower not_False_eq_True)
  \<comment> \<open>the https locator\<close>
  let ?a = "scheme @ host1 @ ''/'' @ grp"
  have sne: "scheme \<noteq> []" using sch lower_Nil_iff[of scheme] by auto
  have "lower_char (hd scheme) = CHR ''h''"
    using hd_lower[OF sne] sch by simp
  then have "is_space (hd scheme) = is_space (CHR ''h'')"
    using is_space_lower_char[of "hd scheme"] by simp
  then have a2: "\<not> is_space (hd ?a)" using sne not_space_h(1) by simp
  have a1: "?a \<noteq> []" using sne by simp
  have "normalise (ws1 @ (?a @ CHR ''/'' # repo @ suf1 @ replicate n1 (CHR ''/'')) @ ws2)
          = lower ?a @ CHR ''/'' # lower repo"
    using ws(1,2) a1 a2 ne r(1) sp git suf(1) by (rule normalise_shape)
  moreover have "lower ?a = ''https://'' @ lower host1 @ ''/'' @ lower grp"
    using sch by (simp add: lower_append) (simp add: lower_def lower_char_lits)
  ultimately have n1: "normalise (ws1 @ scheme @ host1 @ ''/'' @ grp @ ''/'' @ repo @ suf1
                   @ replicate n1 (CHR ''/'') @ ws2)
       = ''https://'' @ lower host1 @ ''/'' @ lower grp @ ''/'' @ lower repo"
    by simp
  have 1: "digest (ws1 @ scheme @ host1 @ ''/'' @ grp @ ''/'' @ repo @ suf1
                   @ replicate n1 (CHR ''/'') @ ws2) = Inr (lower grp @ ''+'' @ lower repo)"
    by (rule digest_https_normal[OF n1 lg(1) lr(1)])
  \<comment> \<open>the locator of the form host:group/repo\<close>
  have ne': "repo' \<noteq> []" using ne same(2) lower_Nil_iff[of repo] lower_Nil_iff[of repo'] by simp
  have r': "CHR ''/'' \<notin> set repo'"
    using lr(1) same(2) slash_in_lower[of repo'] by simp
  have "lower_char (last repo') = lower_char (last repo)"
    using last_lower[OF ne] last_lower[OF ne'] same(2) by simp
  then have sp': "\<not> is_space (last repo')"
    using sp is_space_lower_char[of "last repo'"] is_space_lower_char[of "last repo"] by simp
  have git': "\<not> endswith (lower repo') ''.git''" using git same(2) by simp
  let ?b = "dropWhile is_space host2 @ '':'' @ grp'"
  have b1: "?b \<noteq> []" by simp
  have b2: "\<not> is_space (hd ?b)"
  proof (cases "dropWhile is_space host2 = []")
    case True
    have "hd ?b = CHR '':''" unfolding True by simp
    then show ?thesis using not_space_h(3) by simp
  next
    case False
    then show ?thesis using hd_dropWhile[OF False] by simp
  qed
  have tw: "list_all is_space (takeWhile is_space host2)"
    by (simp add: list_all_iff) (meson set_takeWhileD)
  let ?u2 = "host2 @ '':'' @ grp' @ ''/'' @ repo' @ suf2 @ replicate n2 (CHR ''/'') @ ws3"
  have sh: "normalise (takeWhile is_space host2 @ (?b @ CHR ''/'' # repo' @ suf2
            @ replicate n2 (CHR ''/'')) @ ws3) = lower ?b @ CHR ''/'' # lower repo'"
    using tw ws(3) b1 b2 ne' r' sp' git' suf(2) by (rule normalise_shape)
  have "takeWhile is_space host2 @ (?b @ CHR ''/'' # repo' @ suf2
            @ replicate n2 (CHR ''/'')) @ ws3
       = (takeWhile is_space host2 @ dropWhile is_space host2) @
         ('':'' @ grp' @ ''/'' @ repo' @ suf2 @ replicate n2 (CHR ''/'') @ ws3)"
    by simp
  also have "\<dots> = ?u2" by (simp only: takeWhile_dropWhile_id)
  finally have eq: "takeWhile is_space host2 @ (?b @ CHR ''/'' # repo' @ suf2
            @ replicate n2 (CHR ''/'')) @ ws3 = ?u2" .
  have lb: "lower ?b = lower (lstrip host2) @ '':'' @ lower grp"
    using same(1) by (simp add: lower_append lstrip_def) (simp add: lower_def lower_char_lits)
  have "normalise ?u2 = lower ?b @ CHR ''/'' # lower repo'"
    using sh unfolding eq .
  then have n2: "normalise ?u2
       = lower (lstrip host2) @ '':'' @ lower grp @ ''/'' @ lower repo"
    unfolding lb same(2) by simp
  have 2: "digest (host2 @ '':'' @ grp' @ ''/'' @ repo' @ suf2 @ replicate n2 (CHR ''/'') @ ws3)
             = Inr (lower grp @ ''+'' @ lower repo)"
    by (rule digest_scp_normal_gen[OF n2 h lg lr])
  have 3: "lower (lower grp @ ''+'' @ lower repo) = lower grp @ ''+'' @ lower repo"
  proof -
    have "lower ''+'' = ''+''" by code_simp
    then show ?thesis by (simp only: lower_append lower_idem)
  qed
  have 4: "CHR ''/'' \<notin> set (lower grp @ ''+'' @ lower repo)"
    using lg(1) lr(1) by simp
  have 5: "CHR '':'' \<notin> set (lower grp @ ''+'' @ lower repo)"
    using lg(2) lr(2) by simp
  have 6: "\<not> endswith (lower grp @ ''+'' @ lower repo) ''.git''"
    using git by (simp only: endswith_plus not_False_eq_True)
  from 1 2 3 4 5 6 show ?thesis by blast
qed

theorem digest_https_scp_same_key_witness:
  "digest ''  HTTPS://Host/Group/Repo/ '' = Inr ''group+repo''
   \<and> digest ''git@host:group/repo.git'' = Inr ''group+repo''
   \<and> digest ''https://host/group/repo.git'' = Inr ''group+repo''
   \<and> digest ''host:group/repo'' = Inr ''group+repo''"
proof -
  have a: "ascii (''  '' @ ''HTTPS://'' @ ''Host'' @ ''Group'' @ ''Repo'' @ [] @ '' '')"
    "ascii (''git@host'' @ ''group'' @ ''repo'' @ ''.git'' @ [])" by code_simp+
  have w: "list_all is_space ''  ''" "list_all is_space '' ''" "list_all is_space []"
    by code_simp+
  have s: "lower ''HTTPS://'' = ''https://''" by code_simp
  have f: "lower [] = [] \<or> lower [] = ''.git''" "lower ''.git'' = [] \<or> lower ''.git'' = ''.git''"
    by code_simp+
  have b: "''Repo'' \<noteq> []" "\<not> is_space (last ''Repo'')" "\<not> endswith (lower ''Repo'') ''.git''"
    by code_simp+
  have c: "CHR ''/'' \<notin> set ''Group''" "CHR '':'' \<notin> set ''Group''"
    "CHR ''/'' \<notin> set ''Repo''" "CHR '':'' \<notin> set ''Repo''"
    by simp_all
  have e: "lower ''group'' = lower ''Group''" "lower ''repo'' = lower ''Repo''" by code_simp+
  have h: "\<not> startswith (lower (lstrip ''git@host'')) ''https://''" by code_simp
  have l: "lower ''Group'' = ''group''" "lower ''Repo'' = ''repo''" by code_simp+
  from digest_https_scp_same_key[OF a w s f b c e h, of 1 0]
  have 1: "digest ''  HTTPS://Host/Group/Repo/ '' = Inr ''group+repo''
     \<and> digest ''git@host:group/repo.git'' = Inr ''group+repo''"
    unfolding l by simp
  have a': "ascii ([] @ ''https://'' @ ''host'' @ ''group'' @ ''repo'' @ ''.git'' @ [])"
    "ascii (''host'' @ ''group'' @ ''repo'' @ [] @ [])" by code_simp+
  have s': "lower ''https://'' = ''https://''" by code_simp
  have b': "''repo'' \<noteq> []" "\<not> is_space (last ''repo'')" "\<not> endswith (lower ''repo'') ''.git''"
    by code_simp+
  have c': "CHR ''/'' \<notin> set ''group''" "CHR '':'' \<notin> set ''group''"
    "CHR ''/'' \<notin> set ''repo''" "CHR '':'' \<notin> set ''repo''"
    by simp_all
  have e': "lower ''group'' = lower ''group''" "lower ''repo'' = lower ''repo''" by simp_all
  have h': "\<not> startswith (lower (lstrip ''host'')) ''https://''" by code_simp
  have l': "lower ''group'' = ''group''" "lower ''repo'' = ''repo''" by code_simp+
  from digest_https_scp_same_key[OF a' w(3) w(3) w(3) s' f(2) f(1) b' c' e' h', of 0 0]
  have 2: "digest ''https://host/group/repo.git'' = Inr ''group+repo''
     \<and> digest ''host:group/repo'' = Inr ''group+repo''"
    unfolding l' by simp
  from 1 2 show ?thesis by simp
qed

section \<open>Persisting the index (claim C4)\<close>

text \<open>
  Claim C4, as stated, fails: the temporary file is made in the default temporary
  directory, which is not the directory of the index file.
\<close>

theorem temp_file_directory_counterexample:
  "log (Transaction_exit ev0 trx0 w0) =
     [TempFile ''/tmp/tmpk3q9x'',
      Dump ''/tmp/tmpk3q9x'' \<lparr>doc_lrucache = [(''g+a'', 1)], doc_badcache = {}\<rparr>,
      Rename ''/tmp/tmpk3q9x'' ''/srv/app/repo_manager/repo_pool.json'',
      Flock ''/srv/app/repo_manager/repo_pool.json.lock'' LOCK_UN]
   \<and> dirname ''/tmp/tmpk3q9x'' \<noteq> dirname ''/srv/app/repo_manager/repo_pool.json''"
  by code_simp

text \<open>
  Claim C4, amended. When a transaction in mode w is left, the document is written to a
  temporary file in the default temporary directory of the process, that file is renamed
  onto the path of the index file, and the lock on the index is released after that.
\<close>

theorem write_transaction_exit:
  assumes "fl_mode (t_lock_file trx) = ''w''"
    and "tmpdir ev \<noteq> []" and "last (tmpdir ev) \<noteq> CHR ''/''" and "CHR ''/'' \<notin> set (tmpname ev)"
  shows "Transaction_exit ev trx w =
           w\<lparr>paths := paths w - {join (tmpdir ev) (tmpname ev)},
             index_file := Some \<lparr>doc_lrucache = lrucache trx, doc_badcache = badcache trx\<rparr>,
             log := log w @
               [TempFile (join (tmpdir ev) (tmpname ev)),
                Dump (join (tmpdir ev) (tmpname ev))
                  \<lparr>doc_lrucache = lrucache trx, doc_badcache = badcache trx\<rparr>,
                Rename (join (tmpdir ev) (tmpname ev)) (t_db_file trx),
                Flock (fl_file (t_lock_file trx)) LOCK_UN]\<rparr>
         \<and> dirname (join (tmpdir ev) (tmpname ev)) = tmpdir ev"
  using assms dirname_join[of "tmpdir ev" "tmpname ev"]
  by (simp add: Transaction_exit_def Transaction_dump_def FileLock_exit_def Let_def)

theorem write_transaction_exit_witness:
  "log (Transaction_exit ev0 trx0 w0) =
     [TempFile ''/tmp/tmpk3q9x'',
      Dump ''/tmp/tmpk3q9x'' \<lparr>doc_lrucache = [(''g+a'', 1)], doc_badcache = {}\<rparr>,
      Rename ''/tmp/tmpk3q9x'' ''/srv/app/repo_manager/repo_pool.json'',
      Flock ''/srv/app/repo_manager/repo_pool.json.lock'' LOCK_UN]
   \<and> dirname ''/tmp/tmpk3q9x'' = ''/tmp''"
proof -
  have a: "fl_mode (t_lock_file trx0) = ''w''" by (simp add: trx0_def)
  have b: "tmpdir ev0 \<noteq> []" "last (tmpdir ev0) \<noteq> CHR ''/''" "CHR ''/'' \<notin> set (tmpname ev0)"
    by (simp_all add: ev0_def)
  have j: "join (tmpdir ev0) (tmpname ev0) = ''/tmp/tmpk3q9x''"
    by (simp add: ev0_def join_def startswith_def endswith_def)
  from write_transaction_exit[OF a b, of w0] show ?thesis
    unfolding j by (simp add: ev0_def trx0_def w0_def)
qed

section \<open>Evicting a key that is not cached (claim C2)\<close>

text \<open>
  Claim C2 at two inputs, on the source: a locator whose key is only in the bad set, and
  one whose key is in neither the usage-count map nor the bad set. In both cases
  \<^verbatim>\<open>evict\<close> raises AttributeError while it builds the per-key lock; the bad set keeps
  its key and the world is as before.
\<close>

theorem evict_on_source:
  "digest ''host:bad/repo'' = Inr ''bad+repo''
   \<and> ''bad+repo'' \<in> bad w_bad \<and> \<not> dict_contains ''bad+repo'' (usage w_bad)
   \<and> evict FileLock_class ev0 pool2 ''host:bad/repo'' w_bad = (Inl AttributeError, w_bad)
   \<and> digest ''host:g/a'' = Inr ''g+a''
   \<and> ''g+a'' \<notin> bad w0 \<and> \<not> dict_contains ''g+a'' (usage w0)
   \<and> evict FileLock_class ev0 pool2 ''host:g/a'' w0 = (Inl AttributeError, w0)"
  by code_simp

section \<open>The re-check under the per-key lock (claim C7)\<close>

text \<open>
  Claim C7 at two inputs, on the source. With a cloned entry directory that the index
  does not know, \<^verbatim>\<open>get\<close> raises AttributeError in its first transaction and never
  reaches the per-key lock, so no handle is returned. The statement
  \<^verbatim>\<open>with FileLock(repo_lock)\<close> of the miss path, run on a world whose index marks the
  key as bad, raises AttributeError as well instead of returning None.
\<close>

theorem miss_path_on_source:
  "digest ''host:g/a'' = Inr ''g+a''
   \<and> exists ''/data/repos/g+a'' w_orphan \<and> ''/data/repos/g+a'' \<in> repos w_orphan
   \<and> \<not> dict_contains ''g+a'' (usage w_orphan) \<and> ''g+a'' \<notin> bad w_orphan
   \<and> LRURepoPoolSafe_get FileLock_class ev0 pool2 ''host:g/a'' w_orphan
       = (Inl AttributeError, w_orphan)
   \<and> with_FileLock FileLock_class ''/data/repos/bad+repo.lock'' ''w''
        (get_locked_body FileLock_class ev0 pool2 ''host:bad/repo'' ''bad+repo''
           ''/data/repos/bad+repo'')
        w_bad = (Inl AttributeError, w_bad)"
  by code_simp

section \<open>A fetch that fails (claim C8)\<close>

text \<open>
  Claim C8 at a locator whose fetch fails, on the source: neither \<^verbatim>\<open>get\<close> raises
  NoRepoError, both raise AttributeError; the fetcher is not called and the key is not
  added to the bad set.
\<close>

theorem fetch_failure_on_source:
  "digest ''host:bad/repo'' = Inr ''bad+repo'' \<and> \<not> fetchable ev0 ''host:bad/repo''
   \<and> LRURepoPoolSafe_get FileLock_class ev0 pool2 ''host:bad/repo'' w0
       = (Inl AttributeError, w0)
   \<and> get FileLock_class ev0 pool2 ''host:bad/repo'' w0 = (Inl AttributeError, w0)
   \<and> bad w0 = {} \<and> fetches w0 = []"
  by code_simp

section \<open>Many callers of one locator (claim C10)\<close>

lemma get_source_world:
  "snd (LRURepoPoolSafe_get FileLock_class ev self git_url w) = w"
  by (simp add: LRURepoPoolSafe_get_def lock_def with_Transaction_source Let_def
      split: sum.splits)

lemma get_source_error:
  "\<exists>e. fst (LRURepoPoolSafe_get FileLock_class ev self git_url w) = Inl e"
  by (simp add: LRURepoPoolSafe_get_def lock_def with_Transaction_source Let_def
      split: sum.splits)

lemma run_gets_source:
  "run_calls FileLock_class ev self (replicate n (Get git_url)) w = w"
  unfolding run_calls_def
  by (induction n arbitrary: w) (simp_all add: run_call_def get_source_world)

text \<open>
  Claim C10 on the source, for callers that run one after another: however many times
  \<^verbatim>\<open>get\<close> is called for one locator, every call raises, no caller receives a handle,
  the fetcher is never invoked and the world stays as it was.
\<close>

theorem repeated_get_on_source:
  "run_calls FileLock_class ev self (replicate n (Get git_url)) w = w
   \<and> fetches (run_calls FileLock_class ev self (replicate n (Get git_url)) w) = fetches w
   \<and> (\<exists>e. fst (LRURepoPoolSafe_get FileLock_class ev self git_url
                  (run_calls FileLock_class ev self (replicate n (Get git_url)) w)) = Inl e)"
  by (simp add: run_gets_source get_source_error)

section \<open>The capacity bound (claim C5)\<close>

lemma FileLock_init_result:
  "FileLock_init cls f md w = (r, w1) \<Longrightarrow>
     index_file w1 = index_file w \<and> (\<forall>lk. r = Inr lk \<longrightarrow> fl_mode lk = md)"
  by (auto simp: FileLock_init_def getattr_def open_file_def split: option.splits if_splits)

lemma usage_index: "index_file w1 = index_file w \<Longrightarrow> usage w1 = usage w"
  by (simp add: usage_def)

lemma bad_index: "index_file w1 = index_file w \<Longrightarrow> bad w1 = bad w"
  by (simp add: bad_def)

lemma index_FileLock_enter: "index_file (FileLock_enter lk w) = index_file w"
  by (simp add: FileLock_enter_def)

lemma index_FileLock_exit: "index_file (FileLock_exit lk w) = index_file w"
  by (simp add: FileLock_exit_def)

lemma usage_write_exit:
  "fl_mode (t_lock_file trx) = ''w'' \<Longrightarrow> usage (Transaction_exit ev trx w) = lrucache trx"
  by (simp add: Transaction_exit_def Transaction_dump_def FileLock_exit_def Let_def usage_def)

lemma lock_usage:
  assumes fail: "\<And>e. Q (Inl e) (usage w)"
    and body: "\<And>trx w1 r trx' w3.
       lrucache trx = usage w \<Longrightarrow> index_file w1 = index_file w \<Longrightarrow> body trx w1 = (r, trx', w3) \<Longrightarrow>
       t_lock_file trx' = t_lock_file trx \<and> Q r (lrucache trx')"
  shows "case lock cls ev fdb body w of (r, w') \<Rightarrow> Q r (usage w')"
proof (cases "FileLock_init cls (lock_file fdb) ''w'' w")
  case (Pair r0 w1)
  note i = FileLock_init_result[OF Pair]
  show ?thesis
  proof (cases r0)
    case (Inl e)
    have "usage w1 = usage w" using i by (intro usage_index) simp
    with Pair Inl fail[of e] show ?thesis
      by (simp add: lock_def with_Transaction_def Transaction_init_def)
  next
    case (Inr lk)
    with i have md: "fl_mode lk = ''w''" by simp
    let ?t0 = "\<lparr>t_db_file = db_file fdb, t_lock_file = lk, lrucache = [], badcache = {}\<rparr>"
    let ?w2 = "FileLock_enter lk w1"
    let ?trx = "Transaction_load ?t0 ?w2"
    have i2: "index_file ?w2 = index_file w" using i by (simp add: index_FileLock_enter)
    have l: "lrucache ?trx = usage w" "t_lock_file ?trx = lk"
      using i2 by (simp_all add: Transaction_load_def usage_def split: option.splits)
    obtain r trx' w3 where b: "body ?trx ?w2 = (r, trx', w3)"
      by (cases "body ?trx ?w2") auto
    from body[OF l(1) i2 b] have t: "t_lock_file trx' = lk" and q: "Q r (lrucache trx')"
      using l(2) by simp_all
    have "usage (Transaction_exit ev trx' w3) = lrucache trx'"
      using t md by (simp add: usage_write_exit)
    with q show ?thesis
      using Pair Inr b
      by (simp add: lock_def with_Transaction_def Transaction_init_def Transaction_enter_def Let_def)
  qed
qed

lemma keys_dict_incr: "map fst (dict_incr k d) = map fst d"
  by (induction d) (auto simp: dict_incr_def)

lemma keys_dict_del: "map fst (dict_del k d) = filter (\<lambda>k'. k' \<noteq> k) (map fst d)"
  by (induction d) (auto simp: dict_del_def)

lemma distinct_dict_del: "distinct (map fst d) \<Longrightarrow> distinct (map fst (dict_del k d))"
  by (simp add: keys_dict_del)

lemma length_dict_del: "length (dict_del k d) \<le> length d"
  by (simp add: dict_del_def)

lemma length_dict_del_less: "dict_contains k d \<Longrightarrow> length (dict_del k d) < length d"
proof -
  assume "dict_contains k d"
  then obtain v where "(k, v) \<in> set d" by (auto simp: dict_contains_def)
  then show ?thesis
    unfolding dict_del_def by (intro length_filter_less[of "(k, v)"]) auto
qed

lemma dict_contains_del: "dict_contains k' (dict_del k d) \<Longrightarrow> dict_contains k' d"
  by (auto simp: dict_contains_def dict_del_def)

lemma foldl_min_mem:
  "foldl (\<lambda>b a. if snd a < snd b then a else b) x xs \<in> set (x # xs)"
  for x :: "string \<times> int"
  by (induction xs arbitrary: x) (auto split: if_splits)

lemma min_item_mem: "min_item d = Inr x \<Longrightarrow> x \<in> set d"
proof (cases d)
  case Nil
  then show "min_item d = Inr x \<Longrightarrow> x \<in> set d" by simp
next
  case (Cons y ys)
  then show "min_item d = Inr x \<Longrightarrow> x \<in> set d"
    using foldl_min_mem[of y ys] by auto
qed

lemma min_item_contains: "min_item d = Inr x \<Longrightarrow> dict_contains (fst x) d"
  using min_item_mem[of d x] by (auto simp: dict_contains_def)

lemma foldl_min_le:
  "snd (foldl (\<lambda>b a. if snd a < snd b then a else b) x xs) \<le> snd x \<and>
   (\<forall>y\<in>set xs. snd (foldl (\<lambda>b a. if snd a < snd b then a else b) x xs) \<le> snd y)"
  for x :: "string \<times> int"
proof (induction xs arbitrary: x)
  case Nil
  show ?case by simp
next
  case (Cons a xs)
  show ?case using Cons[of a] Cons[of x] by (auto split: if_splits)
qed

lemma min_item_least: "min_item d = Inr x \<Longrightarrow> y \<in> set d \<Longrightarrow> snd x \<le> snd y"
proof (cases d)
  case Nil
  then show "min_item d = Inr x \<Longrightarrow> y \<in> set d \<Longrightarrow> snd x \<le> snd y" by simp
next
  case (Cons z zs)
  then show "min_item d = Inr x \<Longrightarrow> y \<in> set d \<Longrightarrow> snd x \<le> snd y"
    using foldl_min_le[of z zs] by auto
qed

lemma bounded_index: "index_file w' = index_file w \<Longrightarrow> bounded self w' = bounded self w"
  by (simp add: bounded_def usage_def)

lemma has_room_index: "index_file w' = index_file w \<Longrightarrow> has_room self key w' = has_room self key w"
  by (simp add: has_room_def usage_def)

lemma has_room_bounded: "has_room self key w \<Longrightarrow> bounded self w"
  by (simp add: has_room_def bounded_def)

lemma with_FileLock_bounded:
  assumes "bounded self w"
    and "\<And>w1. index_file w1 = index_file w \<Longrightarrow> bounded self (snd (body w1))"
  shows "bounded self (snd (with_FileLock cls f md body w))"
proof (cases "FileLock_init cls f md w")
  case (Pair r0 w1)
  note i = FileLock_init_result[OF Pair]
  show ?thesis
  proof (cases r0)
    case (Inl e)
    with Pair i assms(1) show ?thesis
      by (simp add: with_FileLock_def bounded_index[of w1 w])
  next
    case (Inr lk)
    have "index_file (FileLock_enter lk w1) = index_file w"
      using i by (simp add: index_FileLock_enter)
    from assms(2)[OF this] have b: "bounded self (snd (body (FileLock_enter lk w1)))" .
    obtain r w2 where bd: "body (FileLock_enter lk w1) = (r, w2)"
      by (cases "body (FileLock_enter lk w1)") auto
    have "bounded self (FileLock_exit lk w2)"
      using b bd by (simp add: bounded_index[OF index_FileLock_exit])
    then show ?thesis
      using Pair Inr bd by (simp add: with_FileLock_def)
  qed
qed

lemma get_index_body_inv:
  assumes "distinct (map fst (lrucache trx))" "int (length (lrucache trx)) \<le> max_size self"
    and "get_index_body self key repo_path trx w1 = (r, trx', w3)"
  shows "t_lock_file trx' = t_lock_file trx \<and> distinct (map fst (lrucache trx')) \<and>
         int (length (lrucache trx')) \<le> max_size self \<and>
         (r = Inr None \<longrightarrow> int (length (lrucache trx')) < max_size self \<and>
                            \<not> dict_contains key (lrucache trx'))"
proof (cases "dict_contains key (lrucache trx)")
  case True
  with assms show ?thesis
    by (auto simp: get_index_body_def Let_def keys_dict_incr split: sum.splits)
      (metis keys_dict_incr length_map)+
next
  case nk: False
  show ?thesis
  proof (cases "key \<in> badcache trx")
    case True
    with nk assms show ?thesis by (auto simp: get_index_body_def)
  next
    case nb: False
    show ?thesis
    proof (cases "max_size self \<le> int (length (lrucache trx))")
      case False
      with nk nb assms show ?thesis by (auto simp: get_index_body_def)
    next
      case True
      show ?thesis
      proof (cases "min_item (lrucache trx)")
        case (Inl e)
        with nk nb True assms show ?thesis by (auto simp: get_index_body_def)
      next
        case (Inr x)
        have c: "dict_contains (fst x) (lrucache trx)" using Inr by (rule min_item_contains)
        have l: "length (dict_del (fst x) (lrucache trx)) < length (lrucache trx)"
          using c by (rule length_dict_del_less)
        have d: "distinct (map fst (dict_del (fst x) (lrucache trx)))"
          using assms(1) by (rule distinct_dict_del)
        have n: "\<not> dict_contains key (dict_del (fst x) (lrucache trx))"
          using nk dict_contains_del by blast
        from nk nb True Inr assms(3)
        have "trx' = trx\<lparr>lrucache := dict_del (fst x) (lrucache trx)\<rparr>" "r = Inr None"
          by (auto simp: get_index_body_def Let_def)
        with l d n assms(2) show ?thesis by auto
      qed
    qed
  qed
qed

lemma evict_body_inv:
  assumes "distinct (map fst (lrucache trx))" "int (length (lrucache trx)) \<le> max_size self"
    and "evict_body key repo_path repo_lock trx w1 = (r, trx', w3)"
  shows "t_lock_file trx' = t_lock_file trx \<and> distinct (map fst (lrucache trx')) \<and>
         int (length (lrucache trx')) \<le> max_size self"
proof (cases "dict_contains key (lrucache trx)")
  case True
  with assms(3) have "trx' = trx\<lparr>lrucache := dict_del key (lrucache trx)\<rparr>"
    by (auto simp: evict_body_def Let_def)
  then show ?thesis
    using assms(1,2) distinct_dict_del[of "lrucache trx" key] length_dict_del[of key "lrucache trx"]
    by auto
next
  case False
  with assms show ?thesis by (auto simp: evict_body_def)
qed

lemma clone_from_index: "index_file (snd (clone_from ev u p w)) = index_file w"
  by (simp add: clone_from_def)

lemma lock_usage_pair:
  assumes "lock cls ev fdb body w = (r, w')"
    and "\<And>e. Q (Inl e) (usage w)"
    and "\<And>trx w1 r trx' w3.
       lrucache trx = usage w \<Longrightarrow> index_file w1 = index_file w \<Longrightarrow> body trx w1 = (r, trx', w3) \<Longrightarrow>
       t_lock_file trx' = t_lock_file trx \<and> Q r (lrucache trx')"
  shows "Q r (usage w')"
  using lock_usage[of Q w body cls ev fdb, OF assms(2,3)] assms(1) by simp

lemma recheck_keeps_room:
  assumes "has_room self key w"
    and "lock cls ev fdb (\<lambda>trx w'. (Inr (key \<in> badcache trx), trx, w')) w = (r1, w1)"
  shows "has_room self key w1"
proof -
  let ?Q = "\<lambda>(r :: error + bool) l. distinct (map fst l) \<and> int (length l) < max_size self \<and>
                 \<not> dict_contains key l"
  have "?Q r1 (usage w1)"
  proof (rule lock_usage_pair[OF assms(2), of ?Q])
    show "\<And>e. ?Q (Inl e) (usage w)" using assms(1) by (simp add: has_room_def)
  next
    fix trx trx' :: Transaction and w1 w3 :: world and r :: "error + bool"
    assume "lrucache trx = usage w"
      and "(Inr (key \<in> badcache trx), trx, w1) = (r, trx', w3)"
    then show "t_lock_file trx' = t_lock_file trx \<and> ?Q r (lrucache trx')"
      using assms(1) by (auto simp: has_room_def)
  qed
  then show ?thesis by (simp add: has_room_def)
qed


lemma mark_bad_bounded:
  assumes "has_room self key w"
    and "lock cls ev fdb
           (\<lambda>trx w'. (Inr (), trx\<lparr>badcache := insert key (badcache trx)\<rparr>, w')) w = (r3, w3)"
  shows "bounded self w3"
proof -
  let ?Q = "\<lambda>(r :: error + unit) l. distinct (map fst l) \<and> int (length l) \<le> max_size self"
  have "?Q r3 (usage w3)"
  proof (rule lock_usage_pair[OF assms(2), of ?Q])
    show "\<And>e. ?Q (Inl e) (usage w)" using assms(1) by (simp add: has_room_def)
  next
    fix trx trx' :: Transaction and w1 w3 :: world and r :: "error + unit"
    assume "lrucache trx = usage w"
      and "(Inr (), trx\<lparr>badcache := insert key (badcache trx)\<rparr>, w1) = (r, trx', w3)"
    then show "t_lock_file trx' = t_lock_file trx \<and> ?Q r (lrucache trx')"
      using assms(1) by (auto simp: has_room_def)
  qed
  then show ?thesis by (simp add: bounded_def)
qed

lemma record_key_bounded:
  assumes "has_room self key w"
    and "lock cls ev fdb
           (\<lambda>trx w'.
              (let trx' = (if \<not> dict_contains key (lrucache trx)
                           then trx\<lparr>lrucache := dict_new key 1 (lrucache trx)\<rparr>
                           else trx\<lparr>lrucache := dict_incr key (lrucache trx)\<rparr>)
               in case Repo_init repo_path w' of
                    Inl e \<Rightarrow> (Inl e, trx', w')
                  | Inr r \<Rightarrow> (Inr (Some r), trx', w'))) w = (r3, w3)"
  shows "bounded self w3"
proof -
  let ?Q = "\<lambda>(r :: error + Repo option) l. distinct (map fst l) \<and> int (length l) \<le> max_size self"
  have "?Q r3 (usage w3)"
  proof (rule lock_usage_pair[OF assms(2), of ?Q])
    show "\<And>e. ?Q (Inl e) (usage w)" using assms(1) by (simp add: has_room_def)
  next
    fix trx trx' :: Transaction and w1 w3 :: world and r :: "error + Repo option"
    assume l: "lrucache trx = usage w"
      and b: "(let trx' = (if \<not> dict_contains key (lrucache trx)
                           then trx\<lparr>lrucache := dict_new key 1 (lrucache trx)\<rparr>
                           else trx\<lparr>lrucache := dict_incr key (lrucache trx)\<rparr>)
               in case Repo_init repo_path w1 of
                    Inl e \<Rightarrow> (Inl e, trx', w1)
                  | Inr r \<Rightarrow> (Inr (Some r), trx', w1)) = (r, trx', w3)"
    have nk: "\<not> dict_contains key (lrucache trx)" using assms(1) l by (simp add: has_room_def)
    from b nk have "trx' = trx\<lparr>lrucache := dict_new key 1 (lrucache trx)\<rparr>"
      by (cases "Repo_init repo_path w1") (simp_all add: Let_def)
    then show "t_lock_file trx' = t_lock_file trx \<and> ?Q r (lrucache trx')"
      using assms(1) l nk by (auto simp: has_room_def dict_new_def dict_contains_def)
  qed
  then show ?thesis by (simp add: bounded_def)
qed

lemma locked_body_bounded:
  assumes room: "has_room self key w"
  shows "bounded self (snd (get_locked_body cls ev self git_url key repo_path w))"
proof (cases "exists repo_path w")
  case True
  have "snd (get_locked_body cls ev self git_url key repo_path w) = w"
    using True by (cases "Repo_init repo_path w") (simp_all add: get_locked_body_def)
  then show ?thesis using has_room_bounded[OF room] by simp
next
  case False
  obtain r1 w1 where
    l1: "lock cls ev (file_db self) (\<lambda>trx w'. (Inr (key \<in> badcache trx), trx, w')) w = (r1, w1)"
    by (cases "lock cls ev (file_db self) (\<lambda>trx w'. (Inr (key \<in> badcache trx), trx, w')) w")
  have room1: "has_room self key w1" using room l1 by (rule recheck_keeps_room)
  show ?thesis
  proof (cases r1)
    case (Inl e)
    have "snd (get_locked_body cls ev self git_url key repo_path w) = w1"
      using False l1 Inl by (simp add: get_locked_body_def)
    then show ?thesis using has_room_bounded[OF room1] by simp
  next
    case (Inr b)
    show ?thesis
    proof (cases b)
      case True
      have "snd (get_locked_body cls ev self git_url key repo_path w) = w1"
        using False l1 Inr True by (simp add: get_locked_body_def)
      then show ?thesis using has_room_bounded[OF room1] by simp
    next
      case nb: False
      obtain r2 w2 where c: "clone_from ev git_url repo_path w1 = (r2, w2)"
        by (cases "clone_from ev git_url repo_path w1")
      have "index_file (snd (clone_from ev git_url repo_path w1)) = index_file w1"
        by (rule clone_from_index)
      then have i2: "index_file w2 = index_file w1" by (simp only: c snd_conv)
      have room2: "has_room self key w2"
        using room1 has_room_index[OF i2, of self key] by simp
      show ?thesis
      proof (cases r2)
        case (Inl e)
        obtain r3 w3 where
          l3: "lock cls ev (file_db self)
                 (\<lambda>trx w'. (Inr (), trx\<lparr>badcache := insert key (badcache trx)\<rparr>, w')) w2 = (r3, w3)"
          by (cases "lock cls ev (file_db self)
                 (\<lambda>trx w'. (Inr (), trx\<lparr>badcache := insert key (badcache trx)\<rparr>, w')) w2")
        have b3: "bounded self w3" using room2 l3 by (rule mark_bad_bounded)
        have "snd (get_locked_body cls ev self git_url key repo_path w) = w3"
          using False l1 Inr nb c Inl l3 by (cases r3) (simp_all add: get_locked_body_def)
        then show ?thesis using b3 by simp
      next
        case r2: (Inr inst)
        obtain r3 w3 where
          l3: "lock cls ev (file_db self)
           (\<lambda>trx w'.
              (let trx' = (if \<not> dict_contains key (lrucache trx)
                           then trx\<lparr>lrucache := dict_new key 1 (lrucache trx)\<rparr>
                           else trx\<lparr>lrucache := dict_incr key (lrucache trx)\<rparr>)
               in case Repo_init repo_path w' of
                    Inl e \<Rightarrow> (Inl e, trx', w')
                  | Inr r \<Rightarrow> (Inr (Some r), trx', w'))) w2 = (r3, w3)"
          by (cases "lock cls ev (file_db self)
           (\<lambda>trx w'.
              (let trx' = (if \<not> dict_contains key (lrucache trx)
                           then trx\<lparr>lrucache := dict_new key 1 (lrucache trx)\<rparr>
                           else trx\<lparr>lrucache := dict_incr key (lrucache trx)\<rparr>)
               in case Repo_init repo_path w' of
                    Inl e \<Rightarrow> (Inl e, trx', w')
                  | Inr r \<Rightarrow> (Inr (Some r), trx', w'))) w2")
        have b3: "bounded self w3" using room2 l3 by (rule record_key_bounded)
        have "snd (get_locked_body cls ev self git_url key repo_path w) = w3"
          using False l1 Inr nb c r2 l3 by (simp add: get_locked_body_def)
        then show ?thesis using b3 by simp
      qed
    qed
  qed
qed

lemma get_bounded:
  assumes b: "bounded self w"
  shows "bounded self (snd (LRURepoPoolSafe_get cls ev self git_url w))"
proof (cases "digest git_url")
  case (Inl e)
  then show ?thesis using b by (simp add: LRURepoPoolSafe_get_def)
next
  case (Inr key)
  let ?path = "join (repo_base self) key"
  let ?lk = "join (repo_base self) (key @ ''.lock'')"
  let ?Q = "\<lambda>(r :: error + Repo option option) l.
              distinct (map fst l) \<and> int (length l) \<le> max_size self \<and>
              (r = Inr None \<longrightarrow> int (length l) < max_size self \<and> \<not> dict_contains key l)"
  obtain r1 w1 where
    l1: "lock cls ev (file_db self) (get_index_body self key ?path) w = (r1, w1)"
    by (cases "lock cls ev (file_db self) (get_index_body self key ?path) w")
  have q: "?Q r1 (usage w1)"
  proof (rule lock_usage_pair[OF l1, of ?Q])
    show "\<And>e. ?Q (Inl e) (usage w)" using b by (simp add: bounded_def)
  next
    fix trx trx' :: Transaction and wa wb :: world and r :: "error + Repo option option"
    assume l: "lrucache trx = usage w"
      and g: "get_index_body self key ?path trx wa = (r, trx', wb)"
    have "distinct (map fst (lrucache trx))" "int (length (lrucache trx)) \<le> max_size self"
      using b l by (simp_all add: bounded_def)
    from get_index_body_inv[OF this g]
    show "t_lock_file trx' = t_lock_file trx \<and> ?Q r (lrucache trx')" by simp
  qed
  then have b1: "bounded self w1" by (simp add: bounded_def)
  show ?thesis
  proof (cases r1)
    case (Inl e)
    have "snd (LRURepoPoolSafe_get cls ev self git_url w) = w1"
      using Inr l1 Inl by (simp add: LRURepoPoolSafe_get_def Let_def)
    then show ?thesis using b1 by simp
  next
    case r: (Inr o1)
    show ?thesis
    proof (cases o1)
      case (Some x)
      have "snd (LRURepoPoolSafe_get cls ev self git_url w) = w1"
        using Inr l1 r Some by (simp add: LRURepoPoolSafe_get_def Let_def)
      then show ?thesis using b1 by simp
    next
      case None
      with q r have room: "has_room self key w1" by (simp add: has_room_def)
      have "bounded self (snd (with_FileLock cls ?lk ''w''
                (get_locked_body cls ev self git_url key ?path) w1))"
      proof (rule with_FileLock_bounded[OF b1])
        fix wa :: world assume i: "index_file wa = index_file w1"
        have "has_room self key wa" using room has_room_index[OF i, of self key] by simp
        then show "bounded self (snd (get_locked_body cls ev self git_url key ?path wa))"
          by (rule locked_body_bounded)
      qed
      moreover have "LRURepoPoolSafe_get cls ev self git_url w =
          with_FileLock cls ?lk ''w'' (get_locked_body cls ev self git_url key ?path) w1"
        using Inr l1 r None by (simp add: LRURepoPoolSafe_get_def Let_def)
      ultimately show ?thesis by simp
    qed
  qed
qed

lemma evict_bounded:
  assumes b: "bounded self w"
  shows "bounded self (snd (evict cls ev self git_url w))"
proof (cases "digest git_url")
  case (Inl e)
  then show ?thesis using b by (simp add: evict_def)
next
  case (Inr key)
  let ?path = "join (repo_base self) key"
  let ?lk = "join (repo_base self) (key @ ''.lock'')"
  let ?Q = "\<lambda>(r :: error + unit) l. distinct (map fst l) \<and> int (length l) \<le> max_size self"
  have "bounded self (snd (with_FileLock cls ?lk ''w''
            (lock cls ev (file_db self) (evict_body key ?path ?lk)) w))"
  proof (rule with_FileLock_bounded[OF b])
    fix wa :: world assume i: "index_file wa = index_file w"
    have ba: "bounded self wa" using b bounded_index[OF i, of self] by simp
    obtain r1 w1 where
      l1: "lock cls ev (file_db self) (evict_body key ?path ?lk) wa = (r1, w1)"
      by (cases "lock cls ev (file_db self) (evict_body key ?path ?lk) wa")
    have "?Q r1 (usage w1)"
    proof (rule lock_usage_pair[OF l1, of ?Q])
      show "\<And>e. ?Q (Inl e) (usage wa)" using ba by (simp add: bounded_def)
    next
      fix trx trx' :: Transaction and wb wc :: world and r :: "error + unit"
      assume l: "lrucache trx = usage wa"
        and g: "evict_body key ?path ?lk trx wb = (r, trx', wc)"
      have "distinct (map fst (lrucache trx))" "int (length (lrucache trx)) \<le> max_size self"
        using ba l by (simp_all add: bounded_def)
      from evict_body_inv[OF this g]
      show "t_lock_file trx' = t_lock_file trx \<and> ?Q r (lrucache trx')" by simp
    qed
    then show "bounded self (snd (lock cls ev (file_db self) (evict_body key ?path ?lk) wa))"
      using l1 by (simp add: bounded_def)
  qed
  then show ?thesis using Inr by (simp add: evict_def Let_def)
qed

lemma run_call_bounded: "bounded self w \<Longrightarrow> bounded self (run_call cls ev self w c)"
  by (cases c) (simp_all add: run_call_def get_bounded evict_bounded)

text \<open>
  Claim C5. Starting from a usage-count map with at most \<^verbatim>\<open>max_size\<close> keys, after
  every call of a sequence of \<^verbatim>\<open>get\<close> and \<^verbatim>\<open>evict\<close> calls, each run to its end,
  the persisted usage-count map has at most \<^verbatim>\<open>max_size\<close> keys. This holds for every
  class namespace of the lock: on the source's class no call changes the index at all.
\<close>

theorem usage_map_stays_bounded:
  assumes "bounded self w"
  shows "bounded self (run_calls cls ev self cs w)"
  using assms unfolding run_calls_def
  by (induction cs arbitrary: w) (simp_all add: run_call_bounded)

theorem usage_map_stays_bounded_witness:
  "bounded pool2 w0
   \<and> bounded pool2
        (run_calls mode_w ev0 pool2
           [Get ''host:g/a'', Get ''host:g/b'', Get ''host:g/c'', Evict ''host:g/b''] w0)
   \<and> usage (run_calls mode_w ev0 pool2
           [Get ''host:g/a'', Get ''host:g/b'', Get ''host:g/c'', Evict ''host:g/b''] w0)
       = [(''g+c'', 1)]"
proof -
  have b: "bounded pool2 w0" by code_simp
  have u: "usage (run_calls mode_w ev0 pool2
           [Get ''host:g/a'', Get ''host:g/b'', Get ''host:g/c'', Evict ''host:g/b''] w0)
       = [(''g+c'', 1)]" by code_simp
  from usage_map_stays_bounded[OF b] b u show ?thesis by simp
qed

section \<open>Eviction at capacity (claim C6)\<close>

text \<open>
  Claim C6 at its scenario, on the source: with \<^verbatim>\<open>max_size = 2\<close> the first
  \<^verbatim>\<open>get\<close> raises AttributeError, and after the three calls the usage-count map is
  still empty; nothing is admitted and nothing is evicted.
\<close>

theorem eviction_scenario_on_source:
  "LRURepoPoolSafe_get FileLock_class ev0 pool2 ''host:g/a'' w0 = (Inl AttributeError, w0)
   \<and> run_calls FileLock_class ev0 pool2
         [Get ''host:g/a'', Get ''host:g/b'', Get ''host:g/c''] w0 = w0
   \<and> usage w0 = []"
  by code_simp

text \<open>
  The eviction block itself does what the claim says: it picks an entry whose counter is
  least, removes its directory and its lock file and deletes its record; and where the
  locks can be built the scenario ends with the two entries B and C.
\<close>

lemma min_item_nonempty: "d \<noteq> [] \<Longrightarrow> \<exists>x. min_item d = Inr x"
  by (cases d) simp_all

lemma eviction_step:
  assumes "\<not> dict_contains key (lrucache trx)" "key \<notin> badcache trx"
    and "max_size self \<le> int (length (lrucache trx))" "lrucache trx \<noteq> []"
  shows "\<exists>least. min_item (lrucache trx) = Inr least \<and> least \<in> set (lrucache trx) \<and>
           (\<forall>y\<in>set (lrucache trx). snd least \<le> snd y) \<and>
           (case get_index_body self key repo_path trx w of
              (r, trx', w') \<Rightarrow>
                r = Inr None \<and> lrucache trx' = dict_del (fst least) (lrucache trx) \<and>
                \<not> dict_contains (fst least) (lrucache trx') \<and>
                \<not> exists (join (repo_base self) (fst least)) w' \<and>
                \<not> exists (join (repo_base self) (fst least @ ''.lock'')) w')"
proof -
  obtain least where l: "min_item (lrucache trx) = Inr least"
    using assms(4) min_item_nonempty by blast
  have m: "least \<in> set (lrucache trx)" using l by (rule min_item_mem)
  have le: "\<forall>y\<in>set (lrucache trx). snd least \<le> snd y"
    using min_item_least[OF l] by blast
  have nd: "\<not> dict_contains (fst least) (dict_del (fst least) (lrucache trx))"
    by (auto simp: dict_contains_def dict_del_def)
  have "case get_index_body self key repo_path trx w of
              (r, trx', w') \<Rightarrow>
                r = Inr None \<and> lrucache trx' = dict_del (fst least) (lrucache trx) \<and>
                \<not> dict_contains (fst least) (lrucache trx') \<and>
                \<not> exists (join (repo_base self) (fst least)) w' \<and>
                \<not> exists (join (repo_base self) (fst least @ ''.lock'')) w'"
    using assms(1,2,3) l nd
    by (auto simp: get_index_body_def Let_def exists_def rmtree_def unlink_def)
  with l m le show ?thesis by (intro exI[of _ least]) simp
qed

lemma eviction_scenario_with_mode:
  "usage (run_calls mode_w ev0 pool2 [Get ''host:g/a'', Get ''host:g/b''] w0)
     = [(''g+a'', 1), (''g+b'', 1)]
   \<and> usage (run_calls mode_w ev0 pool2
         [Get ''host:g/a'', Get ''host:g/b'', Get ''host:g/c''] w0)
     = [(''g+b'', 1), (''g+c'', 1)]
   \<and> \<not> exists ''/data/repos/g+a''
         (run_calls mode_w ev0 pool2 [Get ''host:g/a'', Get ''host:g/b'', Get ''host:g/c''] w0)
   \<and> \<not> exists ''/data/repos/g+a.lock''
         (run_calls mode_w ev0 pool2 [Get ''host:g/a'', Get ''host:g/b'', Get ''host:g/c''] w0)"
  by code_simp

end
